theory Spec2Isabelle
  imports Main
begin

section \<open>The Dedup Store (database.py)\<close>

text \<open>
  The three SQLite tables of \<open>DatabaseManager.init_database\<close>, as lists of rows in rowid
  order. Every table declares \<open>id INTEGER PRIMARY KEY AUTOINCREMENT\<close>, so each table carries
  the largest rowid it has handed out and a new row gets the successor. Timestamps
  (\<open>CURRENT_TIMESTAMP\<close>, \<open>datetime\<close> values) are seconds as integers; \<open>CURRENT_DATE\<close> is the
  day number of the current timestamp. Strings are byte strings (UTF-8).
\<close>

record processed_post =
  pp_id :: nat
  pp_channel_username :: string
  pp_message_id :: int
  pp_message_text :: "string option"
  pp_post_date :: "int option"
  pp_processed_date :: int
  pp_is_published :: bool
  pp_summary :: "string option"

record channel_setting =
  cs_id :: nat
  cs_channel_username :: string
  cs_last_message_id :: int
  cs_is_active :: bool
  cs_added_date :: int

record statistic =
  st_id :: nat
  st_date :: int
  st_posts_processed :: int
  st_posts_published :: int
  st_posts_filtered :: int

record database =
  processed_posts :: "processed_post list"
  processed_posts_seq :: nat
  channel_settings :: "channel_setting list"
  channel_settings_seq :: nat
  statistics :: "statistic list"
  statistics_seq :: nat

definition init_database :: database where
  "init_database =
     \<lparr>processed_posts = [], processed_posts_seq = 0,
      channel_settings = [], channel_settings_seq = 0,
      statistics = [], statistics_seq = 0\<rparr>"

definition current_date :: "int \<Rightarrow> int" where
  "current_date now = now div 86400"

text \<open>
  Each method of \<open>DatabaseManager\<close> wraps its statement in
  \<open>try: ... except sqlite3.Error\<close>. The first argument \<open>up\<close> of the operations below says
  whether SQLite answers; when it does not, the handler logs and returns the fallback
  (\<open>False\<close>, \<open>0\<close>, or nothing written).
\<close>

definition same_post :: "string \<Rightarrow> int \<Rightarrow> processed_post \<Rightarrow> bool" where
  "same_post c i r \<longleftrightarrow> pp_channel_username r = c \<and> pp_message_id r = i"

definition is_post_processed :: "bool \<Rightarrow> string \<Rightarrow> int \<Rightarrow> database \<Rightarrow> bool" where
  "is_post_processed up c i d =
     (if up then list_ex (same_post c i) (processed_posts d) else False)"

text \<open>
  \<open>INSERT OR REPLACE INTO processed_posts\<close>: the row that conflicts on
  \<open>UNIQUE(channel_username, message_id)\<close> is deleted, then the new row is inserted with a
  fresh rowid and the default \<open>processed_date\<close>.
\<close>

definition add_processed_post ::
  "bool \<Rightarrow> int \<Rightarrow> string \<Rightarrow> int \<Rightarrow> string \<Rightarrow> int option \<Rightarrow> string option \<Rightarrow> bool
     \<Rightarrow> database \<Rightarrow> database" where
  "add_processed_post up now c i txt post_date summary is_published d =
     (if up then
        d\<lparr>processed_posts :=
             filter (\<lambda>r. \<not> same_post c i r) (processed_posts d) @
             [\<lparr>pp_id = Suc (processed_posts_seq d), pp_channel_username = c,
               pp_message_id = i, pp_message_text = Some txt, pp_post_date = post_date,
               pp_processed_date = now, pp_is_published = is_published,
               pp_summary = summary\<rparr>],
           processed_posts_seq := Suc (processed_posts_seq d)\<rparr>
      else d)"

definition get_last_message_id :: "bool \<Rightarrow> string \<Rightarrow> database \<Rightarrow> int" where
  "get_last_message_id up c d =
     (if up then
        (case filter (\<lambda>r. cs_channel_username r = c) (channel_settings d) of
           [] \<Rightarrow> 0
         | r # _ \<Rightarrow> cs_last_message_id r)
      else 0)"

text \<open>
  \<open>INSERT OR REPLACE INTO channel_settings (channel_username, last_message_id)\<close>: the row
  that conflicts on the unique \<open>channel_username\<close> is deleted and a new row is inserted; the
  columns the statement does not name take their defaults (\<open>is_active = TRUE\<close>,
  \<open>added_date = CURRENT_TIMESTAMP\<close>) and the rowid is fresh.
\<close>

definition update_last_message_id ::
  "bool \<Rightarrow> int \<Rightarrow> string \<Rightarrow> int \<Rightarrow> database \<Rightarrow> database" where
  "update_last_message_id up now c i d =
     (if up then
        d\<lparr>channel_settings :=
             filter (\<lambda>r. cs_channel_username r \<noteq> c) (channel_settings d) @
             [\<lparr>cs_id = Suc (channel_settings_seq d), cs_channel_username = c,
               cs_last_message_id = i, cs_is_active = True, cs_added_date = now\<rparr>],
           channel_settings_seq := Suc (channel_settings_seq d)\<rparr>
      else d)"

text \<open>
  \<open>INSERT OR IGNORE INTO channel_settings (channel_username)\<close>: a channel that is already
  registered keeps its row. SQLite takes the new rowid before it meets the conflict, so
  the AUTOINCREMENT counter advances also when the insert is ignored.
\<close>

definition add_channel :: "bool \<Rightarrow> int \<Rightarrow> string \<Rightarrow> database \<Rightarrow> database" where
  "add_channel up now c d =
     (if up then
        (if list_ex (\<lambda>r. cs_channel_username r = c) (channel_settings d) then
           d\<lparr>channel_settings_seq := Suc (channel_settings_seq d)\<rparr>
         else
           d\<lparr>channel_settings :=
                channel_settings d @
                [\<lparr>cs_id = Suc (channel_settings_seq d), cs_channel_username = c,
                  cs_last_message_id = 0, cs_is_active = True, cs_added_date = now\<rparr>],
              channel_settings_seq := Suc (channel_settings_seq d)\<rparr>)
      else d)"

text \<open>
  \<open>update_statistics\<close>: \<open>INSERT OR REPLACE INTO statistics (date, ...)\<close>. The table's only key
  is the autoincremented \<open>id\<close>, which the statement does not supply, so no row ever
  conflicts and the statement inserts. Each \<open>COALESCE((SELECT col FROM statistics WHERE
  date = CURRENT_DATE), 0)\<close> is a scalar subquery: the first row of today's rows in rowid
  order, or 0 when today has none.
\<close>

definition today_value :: "(statistic \<Rightarrow> int) \<Rightarrow> int \<Rightarrow> database \<Rightarrow> int" where
  "today_value col now d =
     (case filter (\<lambda>r. st_date r = current_date now) (statistics d) of
        [] \<Rightarrow> 0
      | r # _ \<Rightarrow> col r)"

definition update_statistics ::
  "bool \<Rightarrow> int \<Rightarrow> int \<Rightarrow> int \<Rightarrow> int \<Rightarrow> database \<Rightarrow> database" where
  "update_statistics up now posts_processed posts_published posts_filtered d =
     (if up then
        d\<lparr>statistics :=
             statistics d @
             [\<lparr>st_id = Suc (statistics_seq d), st_date = current_date now,
               st_posts_processed = today_value st_posts_processed now d + posts_processed,
               st_posts_published = today_value st_posts_published now d + posts_published,
               st_posts_filtered = today_value st_posts_filtered now d + posts_filtered\<rparr>],
           statistics_seq := Suc (statistics_seq d)\<rparr>
      else d)"

text \<open>Updates of \<open>channel_settings\<close> done by the maintenance tool (utils.py).\<close>

definition remove_channel :: "bool \<Rightarrow> string \<Rightarrow> database \<Rightarrow> database" where
  "remove_channel up c d =
     (if up then
        d\<lparr>channel_settings :=
             map (\<lambda>r. if cs_channel_username r = c then r\<lparr>cs_is_active := False\<rparr> else r)
               (channel_settings d)\<rparr>
      else d)"

section \<open>The Transport Gateway and the process state (telegram_client.py)\<close>

text \<open>
  A Telethon \<open>Message\<close>, with the three attributes the client reads; \<open>date\<close> and \<open>text\<close> may
  be \<open>None\<close>.
\<close>

record message =
  msg_id :: int
  msg_date :: "int option"
  msg_text :: "string option"

text \<open>
  \<open>client.iter_messages(channel, limit=limit)\<close> is an asynchronous iterator: it yields
  messages one at a time (at most \<open>limit\<close> of them) and may raise at any point of the
  iteration, \<open>FloodWaitError\<close> with its \<open>seconds\<close> or anything else.
\<close>

datatype fetch =
    End
  | Yield message fetch
  | FloodWaitError nat
  | OtherError

text \<open>
  Everything the process receives from outside, indexed by a logical clock that the
  state advances at each interaction: what the transport answers to a retrieval, whether a
  forward succeeds, whether SQLite answers, the wall-clock time, and the three calls of
  \<open>initialize\<close>.
\<close>

record world =
  iter_messages :: "nat \<Rightarrow> string \<Rightarrow> fetch"
  forward_ok :: "nat \<Rightarrow> bool"
  store_up :: "nat \<Rightarrow> bool"
  now :: "nat \<Rightarrow> int"
  start_ok :: "nat \<Rightarrow> bool"
  is_user_authorized :: "nat \<Rightarrow> bool"
  get_me_ok :: "nat \<Rightarrow> bool"

text \<open>What the process does to the outside, in order.\<close>

datatype event =
    Fetch string
  | Retrieved string nat
  | Sleep nat
  | Forward string int bool

text \<open>
  \<open>TelegramNewsClient\<close>: the run boundary \<open>start_time\<close>, the two entries of \<open>self.stats\<close>, the
  database behind \<open>self.db\<close>, and the clock and the trace of events.
\<close>

record client =
  start_time :: "int option"
  stats_posts_processed :: int
  stats_posts_forwarded :: int
  db :: database
  clock :: nat
  trace :: "event list"

definition new_client :: client where
  "new_client =
     \<lparr>start_time = None, stats_posts_processed = 0, stats_posts_forwarded = 0,
      db = init_database, clock = 0, trace = []\<rparr>"

definition tick :: "client \<Rightarrow> client" where
  "tick s = s\<lparr>clock := Suc (clock s)\<rparr>"

definition emit :: "event \<Rightarrow> client \<Rightarrow> client" where
  "emit e s = s\<lparr>trace := trace s @ [e]\<rparr>"

definition sleep :: "nat \<Rightarrow> client \<Rightarrow> client" where
  "sleep n s = emit (Sleep n) s"

subsection \<open>initialize\<close>

fun register_channels :: "world \<Rightarrow> string list \<Rightarrow> client \<Rightarrow> client" where
  "register_channels w [] s = s"
| "register_channels w (c # cs) s =
     register_channels w cs
       (tick (s\<lparr>db := add_channel (store_up w (clock s)) (now w (clock s)) c (db s)\<rparr>))"

text \<open>
  \<open>initialize\<close> returns \<open>False\<close> when \<open>client.start()\<close> or \<open>get_me()\<close> raises or the user is
  not authorized; otherwise it sets \<open>start_time\<close> if it is \<open>None\<close>, registers the channels of
  \<open>Config.SOURCE_CHANNELS\<close> (the parameter \<open>cfg\<close>) and returns \<open>True\<close>.
\<close>

definition initialize :: "world \<Rightarrow> string list \<Rightarrow> client \<Rightarrow> client \<times> bool" where
  "initialize w cfg s =
     (let t = clock s; s1 = tick s in
      if \<not> start_ok w t then (s1, False)
      else if \<not> is_user_authorized w t then (s1, False)
      else if \<not> get_me_ok w t then (s1, False)
      else
        (let s2 = (case start_time s1 of
                     None \<Rightarrow> s1\<lparr>start_time := Some (now w t)\<rparr>
                   | Some b \<Rightarrow> s1)
         in (register_channels w cfg s2, True)))"

definition test_connection :: "world \<Rightarrow> client \<Rightarrow> client \<times> bool" where
  "test_connection w s = (tick s, get_me_ok w (clock s))"

text \<open>\<open>NewsScheduler._health_check\<close> (scheduler.py): reconnect when the ping fails.\<close>

definition health_check :: "world \<Rightarrow> string list \<Rightarrow> client \<Rightarrow> client" where
  "health_check w cfg s =
     (case test_connection w s of
        (s1, is_connected) \<Rightarrow>
          if \<not> is_connected then fst (initialize w cfg s1) else s1)"

subsection \<open>get_channel_messages\<close>

definition has_text :: "message \<Rightarrow> bool" where
  "has_text m \<longleftrightarrow>
     (case msg_text m of
        None \<Rightarrow> False
      | Some t \<Rightarrow> t \<noteq> [] \<and> hd t \<noteq> CHR ''/'')"

datatype outcome =
    Returned "message list"
  | FloodWait nat
  | Raised

text \<open>
  The \<open>async for\<close> loop over the iterator, with \<open>messages\<close> as accumulator: a message after
  the boundary is appended when it has text that is not a command, a message at or before
  the boundary breaks the loop, a message without date is passed over.
\<close>

fun walk :: "int \<Rightarrow> fetch \<Rightarrow> message list \<Rightarrow> outcome" where
  "walk b End messages = Returned messages"
| "walk b (Yield m rest) messages =
     (case msg_date m of
        None \<Rightarrow> walk b rest messages
      | Some d \<Rightarrow>
          if d > b then
            (if has_text m then walk b rest (messages @ [m]) else walk b rest messages)
          else Returned messages)"
| "walk b (FloodWaitError seconds) messages = FloodWait seconds"
| "walk b OtherError messages = Raised"

definition get_channel_messages ::
  "world \<Rightarrow> string \<Rightarrow> client \<Rightarrow> client \<times> message list" where
  "get_channel_messages w c s =
     (case start_time s of
        None \<Rightarrow> (s, [])
      | Some b \<Rightarrow>
          (let s1 = emit (Fetch c) (tick s) in
           case walk b (iter_messages w (clock s) c) [] of
             Returned messages \<Rightarrow> (emit (Retrieved c (length messages)) s1, messages)
           | FloodWait seconds \<Rightarrow> (sleep seconds s1, [])
           | Raised \<Rightarrow> (s1, [])))"

subsection \<open>forward_message\<close>

definition summary_forwarded :: string where
  "summary_forwarded =
     [CHR 0xD0, CHR 0x9F, CHR 0xD0, CHR 0xB5, CHR 0xD1, CHR 0x80, CHR 0xD0, CHR 0xB5,
      CHR 0xD1, CHR 0x81, CHR 0xD0, CHR 0xBB, CHR 0xD0, CHR 0xB0, CHR 0xD0, CHR 0xBD,
      CHR 0xD0, CHR 0xBE]"

definition media_placeholder :: string where
  "media_placeholder =
     [CHR 0x5B, CHR 0xD0, CHR 0x9C, CHR 0xD0, CHR 0xB5, CHR 0xD0, CHR 0xB4, CHR 0xD0,
      CHR 0xB8, CHR 0xD0, CHR 0xB0, CHR 0x20, CHR 0xD1, CHR 0x81, CHR 0xD0, CHR 0xBE,
      CHR 0xD0, CHR 0xBE, CHR 0xD0, CHR 0xB1, CHR 0xD1, CHR 0x89, CHR 0xD0, CHR 0xB5,
      CHR 0xD0, CHR 0xBD, CHR 0xD0, CHR 0xB8, CHR 0xD0, CHR 0xB5, CHR 0x5D]"

definition text_or_placeholder :: "message \<Rightarrow> string" where
  "text_or_placeholder m =
     (case msg_text m of
        None \<Rightarrow> media_placeholder
      | Some t \<Rightarrow> if t = [] then media_placeholder else t)"

text \<open>
  \<open>forward_message\<close>: when \<open>client.forward_messages\<close> raises, the handler returns \<open>False\<close>
  and nothing else has happened; otherwise the post is recorded and both entries of
  \<open>self.stats\<close> are incremented.
\<close>

definition forward_message :: "world \<Rightarrow> message \<Rightarrow> string \<Rightarrow> client \<Rightarrow> client \<times> bool" where
  "forward_message w m c s =
     (let s1 = emit (Forward c (msg_id m) (forward_ok w (clock s))) (tick s) in
      if forward_ok w (clock s) then
        (tick (s1\<lparr>db := add_processed_post (store_up w (clock s1)) (now w (clock s1)) c
                          (msg_id m) (text_or_placeholder m) (msg_date m)
                          (Some summary_forwarded) True (db s1),
                  stats_posts_processed := stats_posts_processed s1 + 1,
                  stats_posts_forwarded := stats_posts_forwarded s1 + 1\<rparr>),
         True)
      else (s1, False))"

subsection \<open>process_all_channels\<close>

record results =
  processed :: int
  forwarded :: int

text \<open>The loop \<open>for message in messages\<close>.\<close>

fun forward_new :: "world \<Rightarrow> string \<Rightarrow> message list \<Rightarrow> client \<times> results \<Rightarrow> client \<times> results" where
  "forward_new w c [] sr = sr"
| "forward_new w c (m # ms) (s, r) =
     (if is_post_processed (store_up w (clock s)) c (msg_id m) (db s) then
        forward_new w c ms (tick s, r)
      else
        (case forward_message w m c (tick s) of
           (s1, ok) \<Rightarrow>
             if ok then forward_new w c ms (sleep 1 s1, r\<lparr>forwarded := forwarded r + 1\<rparr>)
             else forward_new w c ms (s1, r)))"

definition max_message_id :: "message list \<Rightarrow> int" where
  "max_message_id messages = Max (set (map msg_id messages))"

text \<open>
  The body of the loop \<open>for channel_username in Config.SOURCE_CHANNELS\<close>. No statement of
  the body raises an \<open>Exception\<close> past the handlers of the methods it calls, so the outer
  handler has no branch here.
\<close>

definition process_channel :: "world \<Rightarrow> string \<Rightarrow> client \<times> results \<Rightarrow> client \<times> results" where
  "process_channel w c sr =
     (case sr of (s, r) \<Rightarrow>
        (case get_channel_messages w c s of
           (s1, messages) \<Rightarrow>
             if messages = [] then (s1, r)
             else
               (let s2 = tick (s1\<lparr>db := update_last_message_id (store_up w (clock s1))
                                            (now w (clock s1)) c (max_message_id messages)
                                            (db s1)\<rparr>)
                in case forward_new w c messages (s2, r) of
                     (s3, r3) \<Rightarrow>
                       (sleep 2 s3, r3\<lparr>processed := processed r3 + int (length messages)\<rparr>))))"

fun process_channels :: "world \<Rightarrow> string list \<Rightarrow> client \<times> results \<Rightarrow> client \<times> results" where
  "process_channels w [] sr = sr"
| "process_channels w (c # cs) sr = process_channels w cs (process_channel w c sr)"

definition process_all_channels :: "world \<Rightarrow> string list \<Rightarrow> client \<Rightarrow> client \<times> results" where
  "process_all_channels w cfg s =
     (case process_channels w cfg (s, \<lparr>processed = 0, forwarded = 0\<rparr>) of
        (s1, r) \<Rightarrow>
          (tick (s1\<lparr>db := update_statistics (store_up w (clock s1)) (now w (clock s1))
                            (stats_posts_processed s1) (stats_posts_forwarded s1) 0 (db s1),
                    stats_posts_processed := 0,
                    stats_posts_forwarded := 0\<rparr>),
           r))"

text \<open>A sequence of passes of one process: \<open>n\<close> calls of \<open>process_all_channels\<close>.\<close>

fun passes :: "world \<Rightarrow> string list \<Rightarrow> nat \<Rightarrow> client \<Rightarrow> client" where
  "passes w cfg 0 s = s"
| "passes w cfg (Suc n) s = passes w cfg n (fst (process_all_channels w cfg s))"

section \<open>Notions used in the statements\<close>

text \<open>A batch that the transport delivers completely, without raising.\<close>

fun of_list :: "message list \<Rightarrow> fetch" where
  "of_list [] = End"
| "of_list (m # ms) = Yield m (of_list ms)"

definition after_boundary :: "int \<Rightarrow> message \<Rightarrow> bool" where
  "after_boundary b m \<longleftrightarrow> (case msg_date m of None \<Rightarrow> False | Some d \<Rightarrow> b < d)"

definition at_or_before :: "int \<Rightarrow> message \<Rightarrow> bool" where
  "at_or_before b m \<longleftrightarrow> (case msg_date m of None \<Rightarrow> False | Some d \<Rightarrow> d \<le> b)"

fun dates :: "message list \<Rightarrow> int list" where
  "dates [] = []"
| "dates (m # ms) = (case msg_date m of None \<Rightarrow> dates ms | Some d \<Rightarrow> d # dates ms)"

text \<open>Newest first: the timestamps never increase along the batch.\<close>

definition newest_first :: "message list \<Rightarrow> bool" where
  "newest_first batch \<longleftrightarrow> sorted_wrt (\<lambda>x y. y \<le> x) (dates batch)"

text \<open>The events of a run from \<open>s\<close> to \<open>s'\<close>, and two counts over them.\<close>

definition new_events :: "client \<Rightarrow> client \<Rightarrow> event list" where
  "new_events s s' = drop (length (trace s)) (trace s')"

fun retrieved_total :: "event list \<Rightarrow> int" where
  "retrieved_total [] = 0"
| "retrieved_total (Retrieved c n # es) = int n + retrieved_total es"
| "retrieved_total (e # es) = retrieved_total es"

fun forwarded_total :: "event list \<Rightarrow> int" where
  "forwarded_total [] = 0"
| "forwarded_total (Forward c i ok # es) = (if ok then 1 else 0) + forwarded_total es"
| "forwarded_total (e # es) = forwarded_total es"

fun fetches :: "event list \<Rightarrow> string list" where
  "fetches [] = []"
| "fetches (Fetch c # es) = c # fetches es"
| "fetches (e # es) = fetches es"

text \<open>The scenario of the specification: boundary 1000, three messages of channel @a.\<close>

definition scenario_batch :: "message list" where
  "scenario_batch =
     [\<lparr>msg_id = 105, msg_date = Some 1005, msg_text = Some ''hi''\<rparr>,
      \<lparr>msg_id = 104, msg_date = Some 1003, msg_text = Some ''/cmd''\<rparr>,
      \<lparr>msg_id = 103, msg_date = Some 999, msg_text = Some ''old''\<rparr>]"

definition scenario_world :: world where
  "scenario_world =
     \<lparr>iter_messages = (\<lambda>t c. of_list scenario_batch), forward_ok = (\<lambda>t. True),
      store_up = (\<lambda>t. True), now = (\<lambda>t. 1010 + int t), start_ok = (\<lambda>t. True),
      is_user_authorized = (\<lambda>t. True), get_me_ok = (\<lambda>t. True)\<rparr>"

text \<open>A world in which the liveness ping fails.\<close>

definition down_world :: world where
  "down_world =
     \<lparr>iter_messages = (\<lambda>t c. of_list scenario_batch), forward_ok = (\<lambda>t. True),
      store_up = (\<lambda>t. True), now = (\<lambda>t. 2000 + int t), start_ok = (\<lambda>t. True),
      is_user_authorized = (\<lambda>t. True), get_me_ok = (\<lambda>t. False)\<rparr>"

section \<open>Relations between two states of a run\<close>

text \<open>
  \<open>grows s s'\<close>: the trace of \<open>s'\<close> is the trace of \<open>s\<close> followed by the new events.
  \<open>recorded c i s\<close>: the table \<open>processed_posts\<close> of \<open>s\<close> has a row for \<open>(c, i)\<close>.
\<close>

definition grows :: "client \<Rightarrow> client \<Rightarrow> bool" where
  "grows s s' \<longleftrightarrow> trace s' = trace s @ new_events s s'"

definition recorded :: "string \<Rightarrow> int \<Rightarrow> client \<Rightarrow> bool" where
  "recorded c i s \<longleftrightarrow> is_post_processed True c i (db s)"

text \<open>One iteration of the loop \<open>for message in messages\<close>.\<close>

definition forward_one :: "world \<Rightarrow> string \<Rightarrow> message \<Rightarrow> client \<times> results \<Rightarrow> client \<times> results" where
  "forward_one w c m sr =
     (case sr of (s, r) \<Rightarrow>
        if is_post_processed (store_up w (clock s)) c (msg_id m) (db s) then (tick s, r)
        else
          (case forward_message w m c (tick s) of
             (s1, ok) \<Rightarrow>
               if ok then (sleep 1 s1, r\<lparr>forwarded := forwarded r + 1\<rparr>) else (s1, r)))"

text \<open>
  \<open>accounts\<close>: between two points of a pass, \<open>results\<close> and \<open>self.stats\<close> have grown by the
  counts of the events in between.
\<close>

definition accounts :: "client \<times> results \<Rightarrow> client \<times> results \<Rightarrow> bool" where
  "accounts sr sr' \<longleftrightarrow>
     grows (fst sr) (fst sr')
     \<and> forwarded (snd sr') = forwarded (snd sr) + forwarded_total (new_events (fst sr) (fst sr'))
     \<and> processed (snd sr') = processed (snd sr) + retrieved_total (new_events (fst sr) (fst sr'))
     \<and> stats_posts_processed (fst sr') =
         stats_posts_processed (fst sr) + forwarded_total (new_events (fst sr) (fst sr'))
     \<and> stats_posts_forwarded (fst sr') =
         stats_posts_forwarded (fst sr) + forwarded_total (new_events (fst sr) (fst sr'))"

text \<open>
  \<open>once c i\<close>: a recorded pair stays recorded and is not forwarded; a pair that is not
  recorded is forwarded successfully at most once, and is recorded when it has been.
\<close>

definition once :: "string \<Rightarrow> int \<Rightarrow> client \<Rightarrow> client \<Rightarrow> bool" where
  "once c i s s' \<longleftrightarrow>
     grows s s'
     \<and> (recorded c i s \<longrightarrow>
          recorded c i s' \<and> Forward c i True \<notin> set (new_events s s')
          \<and> Forward c i False \<notin> set (new_events s s'))
     \<and> (\<not> recorded c i s \<longrightarrow>
          count_list (new_events s s') (Forward c i True) \<le> 1
          \<and> (Forward c i True \<in> set (new_events s s') \<longrightarrow> recorded c i s'))"

text \<open>\<open>written_by_forward c i\<close>: a record that appears was written by a successful forward.\<close>

definition written_by_forward :: "string \<Rightarrow> int \<Rightarrow> client \<Rightarrow> client \<Rightarrow> bool" where
  "written_by_forward c i s s' \<longleftrightarrow>
     grows s s'
     \<and> (recorded c i s' \<longrightarrow> recorded c i s \<or> Forward c i True \<in> set (new_events s s'))"

text \<open>\<open>fetched cs\<close>: with a run boundary, the retrievals in between are those of \<open>cs\<close>.\<close>

definition fetched :: "string list \<Rightarrow> client \<Rightarrow> client \<Rightarrow> bool" where
  "fetched cs s s' \<longleftrightarrow>
     grows s s' \<and> start_time s' = start_time s
     \<and> (start_time s \<noteq> None \<longrightarrow> fetches (new_events s s') = cs)"

section \<open>Concrete runs\<close>

text \<open>A process whose run boundary is 1000; the store is empty.\<close>

definition started :: client where
  "started = new_client\<lparr>start_time := Some 1000\<rparr>"

definition msg105 :: message where
  "msg105 = \<lparr>msg_id = 105, msg_date = Some 1005, msg_text = Some ''hi''\<rparr>"

definition msg104 :: message where
  "msg104 = \<lparr>msg_id = 104, msg_date = Some 1003, msg_text = Some ''yo''\<rparr>"

text \<open>Every forward fails.\<close>

definition fail_world :: world where
  "fail_world = scenario_world\<lparr>forward_ok := (\<lambda>t. False)\<rparr>"

text \<open>No channel has any message.\<close>

definition quiet_world :: world where
  "quiet_world = scenario_world\<lparr>iter_messages := (\<lambda>t c. End)\<rparr>"

text \<open>
  The first retrieval (at clock 0) delivers 105 and 104; by the second retrieval the
  channel's owner has deleted 105 and the transport delivers 104 alone.
\<close>

definition deleting_world :: world where
  "deleting_world =
     scenario_world\<lparr>iter_messages :=
       (\<lambda>t c. if t = 0 then of_list [msg105, msg104] else of_list [msg104])\<rparr>"

text \<open>The forward attempted at clock 3 fails, the others succeed.\<close>

definition flaky_world :: world where
  "flaky_world =
     scenario_world\<lparr>iter_messages := (\<lambda>t c. of_list [msg105, msg104]),
       forward_ok := (\<lambda>t. t \<noteq> 3)\<rparr>"

text \<open>Channel @b yields one message and then signals a rate limit of 30 seconds.\<close>

definition flood_world :: world where
  "flood_world =
     scenario_world\<lparr>iter_messages :=
       (\<lambda>t c. if c = ''@b'' then Yield msg105 (FloodWaitError 30) else of_list [msg104])\<rparr>"

text \<open>SQLite raises at clock 8 and answers at every other clock.\<close>

definition outage_world :: world where
  "outage_world = scenario_world\<lparr>store_up := (\<lambda>t. t \<noteq> 8)\<rparr>"

section \<open>Candidate filtering\<close>

lemma walk_of_list:
  "walk b (of_list batch) acc =
     Returned (acc @ filter (\<lambda>m. after_boundary b m \<and> has_text m)
                        (takeWhile (\<lambda>m. \<not> at_or_before b m) batch))"
  by (induction batch arbitrary: acc)
     (auto simp: after_boundary_def at_or_before_def split: option.splits)

lemma old_tail_no_candidate:
  "\<forall>d \<in> set (dates batch). d \<le> b \<Longrightarrow>
   filter (\<lambda>m. after_boundary b m \<and> has_text m) batch = []"
  by (induction batch) (auto simp: after_boundary_def split: option.splits)

lemma newest_first_filter:
  "newest_first batch \<Longrightarrow>
   filter (\<lambda>m. after_boundary b m \<and> has_text m) (takeWhile (\<lambda>m. \<not> at_or_before b m) batch)
     = filter (\<lambda>m. after_boundary b m \<and> has_text m) batch"
proof (induction batch)
  case Nil
  then show ?case by simp
next
  case (Cons m ms)
  show ?case
  proof (cases "at_or_before b m")
    case True
    then obtain d where d: "msg_date m = Some d" "d \<le> b"
      by (auto simp: at_or_before_def split: option.splits)
    with Cons.prems have "\<forall>e \<in> set (dates ms). e \<le> b"
      by (auto simp: newest_first_def)
    then have "filter (\<lambda>m. after_boundary b m \<and> has_text m) ms = []"
      by (rule old_tail_no_candidate)
    with True d show ?thesis by (simp add: after_boundary_def)
  next
    case False
    from Cons.prems have "newest_first ms"
      by (auto simp: newest_first_def split: option.splits)
    with Cons.IH False show ?thesis by simp
  qed
qed

text \<open>
  C2. With the run boundary \<open>b\<close> established and a batch that the transport delivers
  completely, \<open>get_channel_messages\<close> returns, in the order of delivery, the messages
  dated strictly after \<open>b\<close> that have non-empty text not beginning with \<open>/\<close>, taken from
  the part of the batch before the first message dated at or before \<open>b\<close>, where the walk
  stops. When the batch is newest first, these are exactly the messages of the whole batch
  that are dated strictly after \<open>b\<close> and have such text.
\<close>

theorem candidate_filtering:
  assumes "start_time s = Some b"
    and "iter_messages w (clock s) c = of_list batch"
  shows "snd (get_channel_messages w c s) =
           filter (\<lambda>m. after_boundary b m \<and> has_text m)
             (takeWhile (\<lambda>m. \<not> at_or_before b m) batch)
         \<and> (newest_first batch \<longrightarrow>
              snd (get_channel_messages w c s) =
                filter (\<lambda>m. after_boundary b m \<and> has_text m) batch)"
  using assms newest_first_filter [of batch b]
  by (simp add: get_channel_messages_def walk_of_list)

text \<open>The scenario: of 105, 104 (a command) and 103 (before the boundary), only 105 is kept.\<close>

theorem candidate_filtering_witness:
  "start_time (new_client\<lparr>start_time := Some 1000\<rparr>) = Some 1000
   \<and> iter_messages scenario_world (clock (new_client\<lparr>start_time := Some 1000\<rparr>)) ''@a''
       = of_list scenario_batch
   \<and> newest_first scenario_batch
   \<and> snd (get_channel_messages scenario_world ''@a'' (new_client\<lparr>start_time := Some 1000\<rparr>))
       = [\<lparr>msg_id = 105, msg_date = Some 1005, msg_text = Some ''hi''\<rparr>]"
  using candidate_filtering [of "new_client\<lparr>start_time := Some 1000\<rparr>" 1000 scenario_world
      "''@a''" scenario_batch]
  by (simp add: scenario_world_def scenario_batch_def new_client_def newest_first_def
      after_boundary_def at_or_before_def has_text_def)

section \<open>Run boundary\<close>

lemma register_channels_start_time:
  "start_time (register_channels w cs s) = start_time s"
  by (induction cs arbitrary: s) (simp_all add: tick_def)

lemma initialize_start_time:
  "start_time s = Some b \<Longrightarrow> start_time (fst (initialize w cfg s)) = Some b"
  by (simp add: initialize_def Let_def tick_def register_channels_start_time)

lemma health_check_start_time:
  "start_time s = Some b \<Longrightarrow> start_time (health_check w cfg s) = Some b"
  by (simp add: health_check_def test_connection_def initialize_start_time tick_def)

lemma health_checks_start_time:
  "start_time s = Some b \<Longrightarrow> start_time ((health_check w cfg ^^ n) s) = Some b"
  by (induction n) (simp_all add: health_check_start_time)

text \<open>
  C8. Once the run boundary is established, \<open>initialize\<close> leaves it as it is, whatever the
  transport answers, and so does any number of liveness checks with their reconnects.
  While no boundary is established, \<open>get_channel_messages\<close> returns the empty list and the
  state is unchanged: no fetch, no event.
\<close>

theorem run_boundary_stable:
  "(start_time s = Some b \<longrightarrow>
      start_time (fst (initialize w cfg s)) = Some b
      \<and> start_time ((health_check w cfg ^^ n) s) = Some b)
   \<and> (start_time s = None \<longrightarrow> get_channel_messages w c s = (s, []))"
  by (simp add: initialize_start_time health_checks_start_time get_channel_messages_def)

theorem run_boundary_stable_witness:
  "start_time (fst (initialize scenario_world [''@a''] new_client)) = Some 1010
   \<and> start_time (fst (initialize down_world [''@a'']
        (fst (initialize scenario_world [''@a''] new_client)))) = Some 1010
   \<and> start_time ((health_check down_world [''@a''] ^^ 2)
        (fst (initialize scenario_world [''@a''] new_client))) = Some 1010
   \<and> start_time new_client = None
   \<and> get_channel_messages scenario_world ''@a'' new_client = (new_client, [])"
proof -
  have b: "start_time (fst (initialize scenario_world [''@a''] new_client)) = Some 1010"
    by (simp add: initialize_def scenario_world_def new_client_def tick_def Let_def)
  have n: "start_time new_client = None"
    by (simp add: new_client_def)
  from b n
    run_boundary_stable [of "fst (initialize scenario_world [''@a''] new_client)" 1010
      down_world "[''@a'']" 2 "''@a''"]
    run_boundary_stable [of new_client 1010 scenario_world "[''@a'']" 2 "''@a''"]
  show ?thesis by simp
qed

section \<open>Rows written by the store\<close>

text \<open>
  C10. A channel registered at time 1000 and deactivated by the maintenance tool has the
  row (1, @a, 0, inactive, 1000). \<open>update_last_message_id\<close> for it at time 2000 leaves
  the row (2, @a, 7, active, 2000): the active flag and the registration timestamp are
  those of a new row, not those the channel had.
\<close>

theorem update_last_message_id_resets_row:
  "channel_settings
     (update_last_message_id True 2000 ''@a'' 7
        (remove_channel True ''@a'' (add_channel True 1000 ''@a'' init_database)))
   = [\<lparr>cs_id = 2, cs_channel_username = ''@a'', cs_last_message_id = 7,
        cs_is_active = True, cs_added_date = 2000\<rparr>]
   \<and> channel_settings (remove_channel True ''@a'' (add_channel True 1000 ''@a'' init_database))
   = [\<lparr>cs_id = 1, cs_channel_username = ''@a'', cs_last_message_id = 0,
        cs_is_active = False, cs_added_date = 1000\<rparr>]"
  by (simp add: update_last_message_id_def remove_channel_def add_channel_def init_database_def)

text \<open>
  C5. Three calls of \<open>update_statistics\<close> on one day, each with one processed and one
  published post, leave three rows for that day, with processed counts 1, 2 and 2: every
  call inserts a row, and the third call adds to the first row's count, not to the total.
\<close>

theorem update_statistics_row_per_call:
  "statistics
     (update_statistics True 300 1 1 0
        (update_statistics True 200 1 1 0
           (update_statistics True 100 1 1 0 init_database)))
   = [\<lparr>st_id = 1, st_date = 0, st_posts_processed = 1, st_posts_published = 1,
        st_posts_filtered = 0\<rparr>,
      \<lparr>st_id = 2, st_date = 0, st_posts_processed = 2, st_posts_published = 2,
        st_posts_filtered = 0\<rparr>,
      \<lparr>st_id = 3, st_date = 0, st_posts_processed = 2, st_posts_published = 2,
        st_posts_filtered = 0\<rparr>]"
  by (simp add: update_statistics_def today_value_def current_date_def init_database_def)

section \<open>Events of a run\<close>

text \<open>The definitions that a concrete run unfolds.\<close>

lemmas run_defs = process_all_channels_def process_channel_def get_channel_messages_def
  forward_message_def is_post_processed_def add_processed_post_def update_last_message_id_def
  update_statistics_def today_value_def current_date_def max_message_id_def
  text_or_placeholder_def has_text_def tick_def emit_def sleep_def Let_def same_post_def
  started_def new_client_def init_database_def get_last_message_id_def new_events_def
  msg105_def msg104_def

lemma growsI: "trace s' = trace s @ evs \<Longrightarrow> grows s s'"
  by (simp add: grows_def new_events_def)

lemma new_eventsI: "trace s' = trace s @ evs \<Longrightarrow> new_events s s' = evs"
  by (simp add: new_events_def)

lemma grows_refl: "grows s s"
  by (simp add: grows_def new_events_def)

lemma new_events_refl: "new_events s s = []"
  by (simp add: new_events_def)

lemma grows_trans: "grows s s1 \<Longrightarrow> grows s1 s2 \<Longrightarrow> grows s s2"
  unfolding grows_def by (metis append.assoc new_eventsI)

lemma new_events_trans:
  "grows s s1 \<Longrightarrow> grows s1 s2 \<Longrightarrow> new_events s s2 = new_events s s1 @ new_events s1 s2"
  unfolding grows_def by (metis append.assoc new_eventsI)

text \<open>
  The message loop and the channel loop are iterations of one step, so a relation that is
  reflexive, transitive and holds across one step holds across the loop.
\<close>

lemma forward_new_Cons:
  "forward_new w c (m # ms) sr = forward_new w c ms (forward_one w c m sr)"
  by (cases sr) (simp add: forward_one_def split: prod.splits)

lemma forward_new_rel:
  assumes "\<And>a. R a a"
    and "\<And>a b d. R a b \<Longrightarrow> R b d \<Longrightarrow> R a d"
    and "\<And>m a. R a (forward_one w c m a)"
  shows "R sr (forward_new w c ms sr)"
proof (induction ms arbitrary: sr)
  case Nil
  show ?case by (simp add: assms(1))
next
  case (Cons m ms)
  have "R sr (forward_one w c m sr)" by (rule assms(3))
  moreover have "R (forward_one w c m sr) (forward_new w c ms (forward_one w c m sr))"
    by (rule Cons.IH)
  ultimately show ?case
    unfolding forward_new_Cons by (rule assms(2))
qed

lemma process_channels_rel:
  assumes "\<And>a. R a a"
    and "\<And>a b d. R a b \<Longrightarrow> R b d \<Longrightarrow> R a d"
    and "\<And>c a. R a (process_channel w c a)"
  shows "R sr (process_channels w cs sr)"
proof (induction cs arbitrary: sr)
  case Nil
  show ?case by (simp add: assms(1))
next
  case (Cons c cs)
  have "R sr (process_channel w c sr)" by (rule assms(3))
  moreover have "R (process_channel w c sr) (process_channels w cs (process_channel w c sr))"
    by (rule Cons.IH)
  ultimately show ?case
    unfolding process_channels.simps by (rule assms(2))
qed

section \<open>One channel's slot\<close>

lemma process_channel_empty:
  "snd (get_channel_messages w c s) = [] \<Longrightarrow>
   process_channel w c (s, r) = (fst (get_channel_messages w c s), r)"
  by (cases "get_channel_messages w c s") (simp add: process_channel_def)

lemma process_channel_nonempty:
  assumes g: "get_channel_messages w c s = (s1, ms)" and ne: "ms \<noteq> []"
  shows "process_channel w c (s, r) =
     (sleep 2 (fst (forward_new w c ms
        (tick (s1\<lparr>db := update_last_message_id (store_up w (clock s1)) (now w (clock s1)) c
                          (max_message_id ms) (db s1)\<rparr>), r))),
      (snd (forward_new w c ms
        (tick (s1\<lparr>db := update_last_message_id (store_up w (clock s1)) (now w (clock s1)) c
                          (max_message_id ms) (db s1)\<rparr>), r)))
        \<lparr>processed := processed (snd (forward_new w c ms
        (tick (s1\<lparr>db := update_last_message_id (store_up w (clock s1)) (now w (clock s1)) c
                          (max_message_id ms) (db s1)\<rparr>), r))) + int (length ms)\<rparr>)"
  using g ne by (simp add: process_channel_def Let_def split: prod.splits)

lemma get_channel_messages_db:
  "db (fst (get_channel_messages w c s)) = db s"
  by (simp add: get_channel_messages_def Let_def tick_def emit_def sleep_def
      split: option.splits outcome.splits)

text \<open>Retrievals: one per channel, none inside the message loop.\<close>

lemma fetches_append: "fetches (xs @ ys) = fetches xs @ fetches ys"
  by (induction xs rule: fetches.induct) simp_all

lemma fetched_refl: "fetched [] s s"
  by (simp add: fetched_def grows_refl new_events_refl)

lemma fetched_trans:
  "fetched xs s s1 \<Longrightarrow> fetched ys s1 s2 \<Longrightarrow> fetched (xs @ ys) s s2"
  unfolding fetched_def
  by (auto simp: new_events_trans fetches_append intro: grows_trans)

lemma fetched_forward_one: "fetched [] (fst a) (fst (forward_one w c m a))"
  by (cases a)
     (simp add: fetched_def forward_one_def forward_message_def Let_def tick_def emit_def
        sleep_def grows_def new_events_def)

lemma fetched_forward_new: "fetched [] (fst sr) (fst (forward_new w c ms sr))"
proof (rule forward_new_rel [of "\<lambda>a b. fetched [] (fst a) (fst b)"])
  show "\<And>a. fetched [] (fst a) (fst a)" by (rule fetched_refl)
  show "\<And>a b d. fetched [] (fst a) (fst b) \<Longrightarrow> fetched [] (fst b) (fst d) \<Longrightarrow>
      fetched [] (fst a) (fst d)"
    using fetched_trans [of "[]" _ _ "[]"] by simp
  show "\<And>m a. fetched [] (fst a) (fst (forward_one w c m a))"
    by (rule fetched_forward_one)
qed

lemma fetched_get_channel_messages:
  "fetched [c] s (fst (get_channel_messages w c s))"
  by (auto simp: get_channel_messages_def Let_def tick_def emit_def sleep_def
      fetched_def grows_def new_events_def split: option.splits outcome.splits)

lemma fetched_process_channel: "fetched [c] (fst a) (fst (process_channel w c a))"
proof -
  obtain s r where a: "a = (s, r)" by (cases a)
  obtain s1 ms where g: "get_channel_messages w c s = (s1, ms)"
    by (cases "get_channel_messages w c s")
  from fetched_get_channel_messages [of c s w] g have g1: "fetched [c] s s1" by simp
  show ?thesis
  proof (cases "ms = []")
    case True
    with g g1 a show ?thesis by (simp add: process_channel_def)
  next
    case False
    define s2 where "s2 = tick (s1\<lparr>db := update_last_message_id (store_up w (clock s1))
        (now w (clock s1)) c (max_message_id ms) (db s1)\<rparr>)"
    have g2: "fetched [] s1 s2"
      by (simp add: fetched_def s2_def tick_def grows_def new_events_def)
    obtain s3 r3 where f: "forward_new w c ms (s2, r) = (s3, r3)"
      by (cases "forward_new w c ms (s2, r)")
    have g3: "fetched [] s2 s3"
      using fetched_forward_new [of "(s2, r)" w c ms] f by simp
    have g4: "fetched [] s3 (sleep 2 s3)"
      by (simp add: fetched_def sleep_def emit_def grows_def new_events_def)
    from fetched_trans [OF fetched_trans [OF fetched_trans [OF g1 g2] g3] g4]
    have "fetched [c] s (sleep 2 s3)" by simp
    moreover have "fst (process_channel w c a) = sleep 2 s3"
      using a g False f by (simp add: process_channel_def Let_def s2_def)
    ultimately show ?thesis using a by simp
  qed
qed

lemma fetched_process_channels: "fetched cs (fst sr) (fst (process_channels w cs sr))"
proof (induction cs arbitrary: sr)
  case Nil
  show ?case by (simp add: fetched_refl)
next
  case (Cons c cs)
  from fetched_trans [OF fetched_process_channel [of c sr w] Cons.IH [of "process_channel w c sr"]]
  show ?case by simp
qed

lemma fetched_process_all_channels: "fetched cfg s (fst (process_all_channels w cfg s))"
proof -
  obtain s1 r where p: "process_channels w cfg (s, \<lparr>processed = 0, forwarded = 0\<rparr>) = (s1, r)"
    by (cases "process_channels w cfg (s, \<lparr>processed = 0, forwarded = 0\<rparr>)")
  from fetched_process_channels [of cfg "(s, \<lparr>processed = 0, forwarded = 0\<rparr>)" w] p
  have g1: "fetched cfg s s1" by simp
  have g2: "fetched [] s1 (fst (process_all_channels w cfg s))"
    by (simp add: fetched_def process_all_channels_def p tick_def grows_def new_events_def)
  from fetched_trans [OF g1 g2] show ?thesis by simp
qed

lemma get_channel_messages_grows:
  "grows s (fst (get_channel_messages w c s))"
  using fetched_get_channel_messages [of c s w] by (simp add: fetched_def)

lemma forward_new_grows: "grows s (fst (forward_new w c ms (s, r)))"
  using fetched_forward_new [of "(s, r)" w c ms] by (simp add: fetched_def)

lemma process_channel_grows: "grows s (fst (process_channel w c (s, r)))"
  using fetched_process_channel [of c "(s, r)" w] by (simp add: fetched_def)

lemma process_channels_grows: "grows (fst sr) (fst (process_channels w cs sr))"
  using fetched_process_channels [of cs sr w] by (simp add: fetched_def)

text \<open>Records: what \<open>add_processed_post\<close> leaves in \<open>processed_posts\<close>.\<close>

lemma recorded_add_processed_post:
  "list_ex (same_post c i) (processed_posts d) \<Longrightarrow>
   list_ex (same_post c i) (processed_posts (add_processed_post up t c' i' txt pd sm pub d))"
  by (auto simp: add_processed_post_def list_ex_iff same_post_def)

lemma recorded_after_add:
  "list_ex (same_post c i) (processed_posts (add_processed_post True t c i txt pd sm pub d))"
  by (simp add: add_processed_post_def list_ex_iff same_post_def)

lemma recorded_add_cases:
  "list_ex (same_post c i) (processed_posts (add_processed_post up t c' i' txt pd sm pub d)) \<Longrightarrow>
   list_ex (same_post c i) (processed_posts d) \<or> (c = c' \<and> i = i')"
  by (auto simp: add_processed_post_def list_ex_iff same_post_def split: if_splits)

lemma count_list_0: "x \<notin> set xs \<Longrightarrow> count_list xs x = 0"
  by (induction xs) auto

section \<open>Pass accounting\<close>

lemma forwarded_total_append:
  "forwarded_total (xs @ ys) = forwarded_total xs + forwarded_total ys"
  by (induction xs rule: forwarded_total.induct) simp_all

lemma retrieved_total_append:
  "retrieved_total (xs @ ys) = retrieved_total xs + retrieved_total ys"
  by (induction xs rule: retrieved_total.induct) simp_all

lemma accounts_refl: "accounts a a"
  by (simp add: accounts_def grows_refl new_events_refl)

lemma accounts_trans: "accounts a b \<Longrightarrow> accounts b d \<Longrightarrow> accounts a d"
  unfolding accounts_def
  by (auto simp: new_events_trans forwarded_total_append retrieved_total_append
      intro: grows_trans)

lemma accounts_forward_one: "accounts a (forward_one w c m a)"
  by (cases a)
     (simp add: accounts_def forward_one_def forward_message_def Let_def tick_def emit_def
        sleep_def grows_def new_events_def)

lemma accounts_forward_new: "accounts sr (forward_new w c ms sr)"
  by (rule forward_new_rel [of accounts]) (auto intro: accounts_refl accounts_trans accounts_forward_one)

lemma accounts_shift:
  "accounts (s, r) (s', r') \<Longrightarrow>
   accounts (s, r\<lparr>processed := processed r + k\<rparr>) (s', r'\<lparr>processed := processed r' + k\<rparr>)"
  by (simp add: accounts_def)

lemma accounts_get_channel_messages:
  "get_channel_messages w c s = (s1, ms) \<Longrightarrow>
   accounts (s, r) (s1, r\<lparr>processed := processed r + int (length ms)\<rparr>)"
  by (auto simp: get_channel_messages_def accounts_def Let_def tick_def emit_def sleep_def
      grows_def new_events_def split: option.splits outcome.splits)

lemma accounts_process_channel: "accounts a (process_channel w c a)"
proof -
  obtain s r where a: "a = (s, r)" by (cases a)
  obtain s1 ms where g: "get_channel_messages w c s = (s1, ms)"
    by (cases "get_channel_messages w c s")
  define r1 where "r1 = r\<lparr>processed := processed r + int (length ms)\<rparr>"
  from g have g1: "accounts (s, r) (s1, r1)"
    unfolding r1_def by (rule accounts_get_channel_messages)
  show ?thesis
  proof (cases "ms = []")
    case True
    with g g1 a show ?thesis by (simp add: process_channel_def r1_def)
  next
    case False
    define s2 where "s2 = tick (s1\<lparr>db := update_last_message_id (store_up w (clock s1))
        (now w (clock s1)) c (max_message_id ms) (db s1)\<rparr>)"
    have g2: "accounts (s1, r1) (s2, r1)"
      by (simp add: accounts_def s2_def tick_def grows_def new_events_def)
    obtain s3 r3 where f: "forward_new w c ms (s2, r) = (s3, r3)"
      by (cases "forward_new w c ms (s2, r)")
    define r4 where "r4 = r3\<lparr>processed := processed r3 + int (length ms)\<rparr>"
    have "accounts (s2, r) (s3, r3)"
      using accounts_forward_new [of "(s2, r)" w c ms] f by simp
    then have g3: "accounts (s2, r1) (s3, r4)"
      unfolding r1_def r4_def by (rule accounts_shift)
    have g4: "accounts (s3, r4) (sleep 2 s3, r4)"
      by (simp add: accounts_def sleep_def emit_def grows_def new_events_def)
    from g1 g2 g3 g4 have "accounts (s, r) (sleep 2 s3, r4)"
      by (blast intro: accounts_trans)
    moreover have "process_channel w c a = (sleep 2 s3, r4)"
      using a g False f by (simp add: process_channel_def Let_def s2_def r4_def)
    ultimately show ?thesis using a by simp
  qed
qed

lemma accounts_process_channels: "accounts sr (process_channels w cs sr)"
  by (rule process_channels_rel [of accounts])
     (auto intro: accounts_refl accounts_trans accounts_process_channel)

text \<open>
  C9, as the code has it. A pass returns the result of the channel loop: \<open>processed\<close> is the
  sum of the candidate counts retrieved over all channels and \<open>forwarded\<close> the number of
  successful forwards. What the pass then hands to \<open>update_statistics\<close> is \<open>self.stats\<close>,
  which \<open>forward_message\<close> increments on success only: both the processed and the published
  argument are the value at the start of the pass (zero after any earlier pass) plus the
  number of successful forwards, and the filtered argument is zero. The pass ends with
  \<open>self.stats\<close> reset to zero.
\<close>

theorem pass_accounting:
  "process_channels w cfg (s, \<lparr>processed = 0, forwarded = 0\<rparr>) = (s1, r) \<Longrightarrow>
   snd (process_all_channels w cfg s) = r
   \<and> processed r = retrieved_total (new_events s s1)
   \<and> forwarded r = forwarded_total (new_events s s1)
   \<and> db (fst (process_all_channels w cfg s)) =
       update_statistics (store_up w (clock s1)) (now w (clock s1))
         (stats_posts_processed s + forwarded r) (stats_posts_forwarded s + forwarded r) 0
         (db s1)
   \<and> stats_posts_processed (fst (process_all_channels w cfg s)) = 0
   \<and> stats_posts_forwarded (fst (process_all_channels w cfg s)) = 0
   \<and> new_events s (fst (process_all_channels w cfg s)) = new_events s s1"
  using accounts_process_channels [of "(s, \<lparr>processed = 0, forwarded = 0\<rparr>)" w cfg]
  by (simp add: accounts_def process_all_channels_def tick_def new_events_def)

text \<open>
  A pass in which the forward of 105 fails and the forward of 104 succeeds: the result is
  2 processed and 1 forwarded, and the row written has 1 processed and 1 published.
\<close>

theorem pass_accounting_witness:
  "processed (snd (process_all_channels flaky_world [''@a''] started)) = 2
   \<and> forwarded (snd (process_all_channels flaky_world [''@a''] started)) = 1
   \<and> new_events started (fst (process_channels flaky_world [''@a'']
        (started, \<lparr>processed = 0, forwarded = 0\<rparr>)))
       = [Fetch ''@a'', Retrieved ''@a'' 2, Forward ''@a'' 105 False, Forward ''@a'' 104 True,
          Sleep 1, Sleep 2]
   \<and> map st_posts_processed
        (statistics (db (fst (process_all_channels flaky_world [''@a''] started)))) = [1]
   \<and> map st_posts_published
        (statistics (db (fst (process_all_channels flaky_world [''@a''] started)))) = [1]
   \<and> map st_posts_filtered
        (statistics (db (fst (process_all_channels flaky_world [''@a''] started)))) = [0]"
proof -
  have e: "process_channels flaky_world [''@a''] (started, \<lparr>processed = 0, forwarded = 0\<rparr>)
      = (fst (process_channels flaky_world [''@a''] (started, \<lparr>processed = 0, forwarded = 0\<rparr>)),
         snd (process_channels flaky_world [''@a''] (started, \<lparr>processed = 0, forwarded = 0\<rparr>)))"
    by simp
  have n: "new_events started (fst (process_channels flaky_world [''@a'']
        (started, \<lparr>processed = 0, forwarded = 0\<rparr>)))
       = [Fetch ''@a'', Retrieved ''@a'' 2, Forward ''@a'' 105 False, Forward ''@a'' 104 True,
          Sleep 1, Sleep 2]"
    by (simp add: run_defs flaky_world_def scenario_world_def)
  have d: "statistics (db (fst (process_channels flaky_world [''@a'']
        (started, \<lparr>processed = 0, forwarded = 0\<rparr>)))) = []"
    by (simp add: run_defs flaky_world_def scenario_world_def)
  have z: "stats_posts_processed started = 0" "stats_posts_forwarded started = 0"
    by (simp_all add: started_def new_client_def)
  have u: "store_up flaky_world t" for t
    by (simp add: flaky_world_def scenario_world_def)
  from pass_accounting [OF e] n d z u show ?thesis
    by (simp add: update_statistics_def today_value_def)
qed

text \<open>
  C9 as stated fails: in a pass over one channel whose only candidate cannot be forwarded,
  the result has 1 processed, and the processed count written to the daily counters is 0.
\<close>

theorem daily_counters_differ_from_totals:
  "processed (snd (process_all_channels fail_world [''@a''] started)) = 1
   \<and> map st_posts_processed
        (statistics (db (fst (process_all_channels fail_world [''@a''] started)))) = [0]"
  by (simp add: run_defs fail_world_def scenario_world_def scenario_batch_def)

section \<open>At-most-once forwarding\<close>

lemma once_refl: "once c i s s"
  by (simp add: once_def grows_refl new_events_refl)

lemma once_trans:
  assumes "once c i s s1" and "once c i s1 s2"
  shows "once c i s s2"
proof -
  from assms have g: "grows s s1" "grows s1 s2" by (simp_all add: once_def)
  then have ne: "new_events s s2 = new_events s s1 @ new_events s1 s2"
    by (rule new_events_trans)
  from g have g2: "grows s s2" by (rule grows_trans)
  show ?thesis
  proof (cases "recorded c i s")
    case True
    with assms show ?thesis by (auto simp: once_def ne g2)
  next
    case False
    show ?thesis
    proof (cases "Forward c i True \<in> set (new_events s s1)")
      case True
      with False assms(1) have r1: "recorded c i s1" by (simp add: once_def)
      with assms(2) have "Forward c i True \<notin> set (new_events s1 s2)" "recorded c i s2"
        by (simp_all add: once_def)
      with False assms(1) show ?thesis
        by (simp add: once_def ne g2 count_list_0)
    next
      case nf: False
      then have c0: "count_list (new_events s s1) (Forward c i True) = 0"
        by (rule count_list_0)
      show ?thesis
      proof (cases "recorded c i s1")
        case True
        with assms(2) have "Forward c i True \<notin> set (new_events s1 s2)"
          by (simp add: once_def)
        with False nf c0 show ?thesis by (simp add: once_def ne g2 count_list_0)
      next
        case r1: False
        with assms(2) False nf c0 show ?thesis by (simp add: once_def ne g2)
      qed
    qed
  qed
qed

lemma once_forward_one:
  assumes up: "\<And>t. store_up w t"
  shows "once c i s (fst (forward_one w c' m (s, r)))"
proof (cases "is_post_processed True c' (msg_id m) (db s)")
  case True
  then show ?thesis
    by (simp add: forward_one_def up once_def tick_def grows_def new_events_def recorded_def)
next
  case False
  show ?thesis
  proof (cases "forward_ok w (Suc (clock s))")
    case ok: True
    with False show ?thesis
      by (auto simp: forward_one_def up once_def tick_def grows_def new_events_def recorded_def
          forward_message_def Let_def emit_def sleep_def is_post_processed_def
          recorded_add_processed_post recorded_after_add)
  next
    case nok: False
    with False show ?thesis
      by (auto simp: forward_one_def up once_def tick_def grows_def new_events_def recorded_def
          forward_message_def Let_def emit_def sleep_def is_post_processed_def)
  qed
qed

lemma once_forward_new:
  assumes up: "\<And>t. store_up w t"
  shows "once c i (fst sr) (fst (forward_new w c' ms sr))"
proof (rule forward_new_rel [of "\<lambda>a b. once c i (fst a) (fst b)"])
  show "\<And>a. once c i (fst a) (fst a)" by (rule once_refl)
  show "\<And>a b d. once c i (fst a) (fst b) \<Longrightarrow> once c i (fst b) (fst d) \<Longrightarrow> once c i (fst a) (fst d)"
    by (rule once_trans)
  show "\<And>m a. once c i (fst a) (fst (forward_one w c' m a))"
    using once_forward_one [OF up] by (metis prod.collapse)
qed

lemma once_same_posts:
  "trace s' = trace s @ evs \<Longrightarrow> processed_posts (db s') = processed_posts (db s) \<Longrightarrow>
   \<forall>ok. Forward c i ok \<notin> set evs \<Longrightarrow> once c i s s'"
  by (simp add: once_def grows_def new_events_def recorded_def is_post_processed_def count_list_0)

lemma once_get_channel_messages:
  "once c i s (fst (get_channel_messages w c' s))"
  by (auto simp: get_channel_messages_def Let_def tick_def emit_def sleep_def once_def
      grows_def new_events_def recorded_def split: option.splits outcome.splits)

lemma once_process_channel:
  assumes up: "\<And>t. store_up w t"
  shows "once c i (fst a) (fst (process_channel w c' a))"
proof -
  obtain s r where a: "a = (s, r)" by (cases a)
  obtain s1 ms where g: "get_channel_messages w c' s = (s1, ms)"
    by (cases "get_channel_messages w c' s")
  from once_get_channel_messages [of c i s w c'] g have g1: "once c i s s1" by simp
  show ?thesis
  proof (cases "ms = []")
    case True
    with g g1 a show ?thesis by (simp add: process_channel_def)
  next
    case False
    define s2 where "s2 = tick (s1\<lparr>db := update_last_message_id (store_up w (clock s1))
        (now w (clock s1)) c' (max_message_id ms) (db s1)\<rparr>)"
    have g2: "once c i s1 s2"
      by (rule once_same_posts [of _ _ "[]"])
         (simp_all add: s2_def tick_def update_last_message_id_def)
    obtain s3 r3 where f: "forward_new w c' ms (s2, r) = (s3, r3)"
      by (cases "forward_new w c' ms (s2, r)")
    have g3: "once c i s2 s3"
      using once_forward_new [OF up, of c i "(s2, r)" c' ms] f by simp
    have g4: "once c i s3 (sleep 2 s3)"
      by (rule once_same_posts [of _ _ "[Sleep 2]"]) (simp_all add: sleep_def emit_def)
    from g1 g2 g3 g4 have "once c i s (sleep 2 s3)"
      by (blast intro: once_trans)
    moreover have "fst (process_channel w c' a) = sleep 2 s3"
      using a g False f by (simp add: process_channel_def Let_def s2_def)
    ultimately show ?thesis using a by simp
  qed
qed

lemma once_process_channels:
  assumes up: "\<And>t. store_up w t"
  shows "once c i (fst sr) (fst (process_channels w cs sr))"
proof (rule process_channels_rel [of "\<lambda>a b. once c i (fst a) (fst b)"])
  show "\<And>a. once c i (fst a) (fst a)" by (rule once_refl)
  show "\<And>a b d. once c i (fst a) (fst b) \<Longrightarrow> once c i (fst b) (fst d) \<Longrightarrow> once c i (fst a) (fst d)"
    by (rule once_trans)
  show "\<And>c' a. once c i (fst a) (fst (process_channel w c' a))"
    by (rule once_process_channel [OF up])
qed

lemma once_process_all_channels:
  assumes up: "\<And>t. store_up w t"
  shows "once c i s (fst (process_all_channels w cfg s))"
proof -
  obtain s1 r where p: "process_channels w cfg (s, \<lparr>processed = 0, forwarded = 0\<rparr>) = (s1, r)"
    by (cases "process_channels w cfg (s, \<lparr>processed = 0, forwarded = 0\<rparr>)")
  from once_process_channels [OF up, of c i "(s, \<lparr>processed = 0, forwarded = 0\<rparr>)" cfg] p
  have g1: "once c i s s1" by simp
  have g2: "once c i s1 (fst (process_all_channels w cfg s))"
    by (rule once_same_posts [of _ _ "[]"])
       (simp_all add: process_all_channels_def p tick_def update_statistics_def)
  from g1 g2 show ?thesis by (rule once_trans)
qed

lemma once_passes:
  assumes up: "\<And>t. store_up w t"
  shows "once c i s (passes w cfg n s)"
proof (induction n arbitrary: s)
  case 0
  show ?case by (simp add: once_refl)
next
  case (Suc n)
  have "once c i s (fst (process_all_channels w cfg s))"
    by (rule once_process_all_channels [OF up])
  moreover have "once c i (fst (process_all_channels w cfg s))
      (passes w cfg n (fst (process_all_channels w cfg s)))"
    by (rule Suc.IH)
  ultimately show ?case
    unfolding passes.simps by (rule once_trans)
qed

text \<open>
  C1, as the code has it. After \<open>add_processed_post\<close> has written a record for a pair,
  \<open>is_post_processed\<close> is true for it when the store answers the lookup; when SQLite
  raises, \<open>is_post_processed\<close> returns \<open>False\<close> whatever the table holds. As long as the
  store answers every statement: a pair that has a processed record keeps it through any
  number of passes, whatever the transport delivers, and no forward of it is attempted in
  those passes; and over any number of passes from any state, no pair is forwarded
  successfully more than once.
\<close>

theorem at_most_once_forwarding:
  assumes "\<forall>t. store_up w t"
  shows "is_post_processed True c i (add_processed_post True t0 c i txt pd sm pub d)
    \<and> \<not> is_post_processed False c i d
    \<and> (is_post_processed True c i (db s) \<longrightarrow>
         is_post_processed True c i (db (passes w cfg n s))
         \<and> Forward c i True \<notin> set (new_events s (passes w cfg n s))
         \<and> Forward c i False \<notin> set (new_events s (passes w cfg n s)))
    \<and> count_list (new_events s (passes w cfg n s)) (Forward c i True) \<le> 1"
proof -
  from assms have up: "\<And>t. store_up w t" by simp
  have o: "once c i s (passes w cfg n s)" by (rule once_passes [OF up])
  have a: "is_post_processed True c i (add_processed_post True t0 c i txt pd sm pub d)"
    by (simp add: is_post_processed_def recorded_after_add)
  have f: "\<not> is_post_processed False c i d"
    by (simp add: is_post_processed_def)
  from o have b: "is_post_processed True c i (db s) \<longrightarrow>
         is_post_processed True c i (db (passes w cfg n s))
         \<and> Forward c i True \<notin> set (new_events s (passes w cfg n s))
         \<and> Forward c i False \<notin> set (new_events s (passes w cfg n s))"
    by (simp add: once_def recorded_def)
  from o have "count_list (new_events s (passes w cfg n s)) (Forward c i True) \<le> 1"
    by (cases "recorded c i s") (simp_all add: once_def count_list_0)
  with a f b show ?thesis by simp
qed

text \<open>
  The scenario: the first pass forwards 105 and records it; two more passes that retrieve
  105 again do not forward it.
\<close>

theorem at_most_once_forwarding_witness:
  "is_post_processed True ''@a'' 105 (db (passes scenario_world [''@a''] 1 started))
   \<and> is_post_processed True ''@a'' 105
        (db (passes scenario_world [''@a''] 2 (passes scenario_world [''@a''] 1 started)))
   \<and> Forward ''@a'' 105 True \<notin> set (new_events (passes scenario_world [''@a''] 1 started)
        (passes scenario_world [''@a''] 2 (passes scenario_world [''@a''] 1 started)))
   \<and> Forward ''@a'' 105 False \<notin> set (new_events (passes scenario_world [''@a''] 1 started)
        (passes scenario_world [''@a''] 2 (passes scenario_world [''@a''] 1 started)))
   \<and> new_events started (passes scenario_world [''@a''] 1 started)
        = [Fetch ''@a'', Retrieved ''@a'' 1, Forward ''@a'' 105 True, Sleep 1, Sleep 2]
   \<and> count_list (new_events started (passes scenario_world [''@a''] 3 started))
        (Forward ''@a'' 105 True) \<le> 1"
proof -
  have u: "\<forall>t. store_up scenario_world t"
    by (simp add: scenario_world_def)
  have r: "is_post_processed True ''@a'' 105 (db (passes scenario_world [''@a''] 1 started))"
    by (simp add: run_defs scenario_world_def scenario_batch_def)
  have n: "new_events started (passes scenario_world [''@a''] 1 started)
        = [Fetch ''@a'', Retrieved ''@a'' 1, Forward ''@a'' 105 True, Sleep 1, Sleep 2]"
    by (simp add: run_defs scenario_world_def scenario_batch_def)
  from r n
    at_most_once_forwarding [OF u, of "''@a''" 105 0 "''hi''" None None True init_database
      "passes scenario_world [''@a''] 1 started" "[''@a'']" 2]
    at_most_once_forwarding [OF u, of "''@a''" 105 0 "''hi''" None None True init_database
      started "[''@a'']" 3]
  show ?thesis by simp
qed

text \<open>
  C1 as stated fails: the first pass forwards 105 and writes its record; in the second
  pass SQLite raises at the dedup lookup (clock 8), \<open>is_post_processed\<close> returns \<open>False\<close>
  although the record is there, and 105 is forwarded again.
\<close>

theorem dedup_lookup_failure_forwards_again:
  "is_post_processed True ''@a'' 105 (db (passes outage_world [''@a''] 1 started))
   \<and> new_events started (passes outage_world [''@a''] 1 started)
        = [Fetch ''@a'', Retrieved ''@a'' 1, Forward ''@a'' 105 True, Sleep 1, Sleep 2]
   \<and> new_events (passes outage_world [''@a''] 1 started)
        (passes outage_world [''@a''] 1 (passes outage_world [''@a''] 1 started))
        = [Fetch ''@a'', Retrieved ''@a'' 1, Forward ''@a'' 105 True, Sleep 1, Sleep 2]"
  by (simp add: run_defs outage_world_def scenario_world_def scenario_batch_def)

section \<open>Forward failures\<close>

lemma wbf_refl: "written_by_forward c i s s"
  by (simp add: written_by_forward_def grows_refl)

lemma wbf_trans:
  "written_by_forward c i s s1 \<Longrightarrow> written_by_forward c i s1 s2 \<Longrightarrow> written_by_forward c i s s2"
  unfolding written_by_forward_def
  by (auto simp: new_events_trans intro: grows_trans)

lemma wbf_same_posts:
  "trace s' = trace s @ evs \<Longrightarrow> processed_posts (db s') = processed_posts (db s) \<Longrightarrow>
   written_by_forward c i s s'"
  by (simp add: written_by_forward_def grows_def new_events_def recorded_def
      is_post_processed_def)

lemma wbf_forward_one: "written_by_forward c i s (fst (forward_one w c' m (s, r)))"
proof (cases "is_post_processed (store_up w (clock s)) c' (msg_id m) (db s)")
  case True
  then show ?thesis
    by (simp add: forward_one_def) (rule wbf_same_posts [of _ _ "[]"], simp_all add: tick_def)
next
  case False
  show ?thesis
  proof (cases "forward_ok w (Suc (clock s))")
    case ok: True
    with False show ?thesis
      by (auto simp: forward_one_def written_by_forward_def tick_def grows_def new_events_def
          recorded_def forward_message_def Let_def emit_def sleep_def is_post_processed_def
          dest: recorded_add_cases)
  next
    case nok: False
    with False show ?thesis
      by (simp add: forward_one_def forward_message_def Let_def tick_def emit_def)
         (rule wbf_same_posts [of _ _ "[Forward c' (msg_id m) False]"], simp_all)
  qed
qed

lemma wbf_forward_new: "written_by_forward c i (fst sr) (fst (forward_new w c' ms sr))"
proof (rule forward_new_rel [of "\<lambda>a b. written_by_forward c i (fst a) (fst b)"])
  show "\<And>a. written_by_forward c i (fst a) (fst a)" by (rule wbf_refl)
  show "\<And>a b d. written_by_forward c i (fst a) (fst b) \<Longrightarrow>
      written_by_forward c i (fst b) (fst d) \<Longrightarrow> written_by_forward c i (fst a) (fst d)"
    by (rule wbf_trans)
  show "\<And>m a. written_by_forward c i (fst a) (fst (forward_one w c' m a))"
    using wbf_forward_one by (metis prod.collapse)
qed

lemma wbf_get_channel_messages:
  "written_by_forward c i s (fst (get_channel_messages w c' s))"
  by (auto simp: get_channel_messages_def Let_def tick_def emit_def sleep_def
      written_by_forward_def grows_def new_events_def recorded_def
      split: option.splits outcome.splits)

lemma wbf_process_channel:
  "written_by_forward c i (fst a) (fst (process_channel w c' a))"
proof -
  obtain s r where a: "a = (s, r)" by (cases a)
  obtain s1 ms where g: "get_channel_messages w c' s = (s1, ms)"
    by (cases "get_channel_messages w c' s")
  from wbf_get_channel_messages [of c i s w c'] g have g1: "written_by_forward c i s s1"
    by simp
  show ?thesis
  proof (cases "ms = []")
    case True
    with g g1 a show ?thesis by (simp add: process_channel_def)
  next
    case False
    define s2 where "s2 = tick (s1\<lparr>db := update_last_message_id (store_up w (clock s1))
        (now w (clock s1)) c' (max_message_id ms) (db s1)\<rparr>)"
    have g2: "written_by_forward c i s1 s2"
      by (rule wbf_same_posts [of _ _ "[]"])
         (simp_all add: s2_def tick_def update_last_message_id_def)
    obtain s3 r3 where f: "forward_new w c' ms (s2, r) = (s3, r3)"
      by (cases "forward_new w c' ms (s2, r)")
    have g3: "written_by_forward c i s2 s3"
      using wbf_forward_new [of c i "(s2, r)" w c' ms] f by simp
    have g4: "written_by_forward c i s3 (sleep 2 s3)"
      by (rule wbf_same_posts [of _ _ "[Sleep 2]"]) (simp_all add: sleep_def emit_def)
    from g1 g2 g3 g4 have "written_by_forward c i s (sleep 2 s3)"
      by (blast intro: wbf_trans)
    moreover have "fst (process_channel w c' a) = sleep 2 s3"
      using a g False f by (simp add: process_channel_def Let_def s2_def)
    ultimately show ?thesis using a by simp
  qed
qed

lemma wbf_process_channels:
  "written_by_forward c i (fst sr) (fst (process_channels w cs sr))"
proof (rule process_channels_rel [of "\<lambda>a b. written_by_forward c i (fst a) (fst b)"])
  show "\<And>a. written_by_forward c i (fst a) (fst a)" by (rule wbf_refl)
  show "\<And>a b d. written_by_forward c i (fst a) (fst b) \<Longrightarrow>
      written_by_forward c i (fst b) (fst d) \<Longrightarrow> written_by_forward c i (fst a) (fst d)"
    by (rule wbf_trans)
  show "\<And>c' a. written_by_forward c i (fst a) (fst (process_channel w c' a))"
    by (rule wbf_process_channel)
qed

lemma wbf_process_all_channels:
  "written_by_forward c i s (fst (process_all_channels w cfg s))"
proof -
  obtain s1 r where p: "process_channels w cfg (s, \<lparr>processed = 0, forwarded = 0\<rparr>) = (s1, r)"
    by (cases "process_channels w cfg (s, \<lparr>processed = 0, forwarded = 0\<rparr>)")
  from wbf_process_channels [of c i "(s, \<lparr>processed = 0, forwarded = 0\<rparr>)" w cfg] p
  have g1: "written_by_forward c i s s1" by simp
  have g2: "written_by_forward c i s1 (fst (process_all_channels w cfg s))"
    by (rule wbf_same_posts [of _ _ "[]"])
       (simp_all add: process_all_channels_def p tick_def update_statistics_def)
  from g1 g2 show ?thesis by (rule wbf_trans)
qed

lemma forward_one_covers:
  "recorded c (msg_id m) s
   \<or> Forward c (msg_id m) True \<in> set (new_events s (fst (forward_one w c m (s, r))))
   \<or> Forward c (msg_id m) False \<in> set (new_events s (fst (forward_one w c m (s, r))))"
  by (cases "forward_ok w (Suc (clock s))")
     (auto simp: forward_one_def forward_message_def Let_def tick_def emit_def sleep_def
        new_events_def recorded_def is_post_processed_def split: if_splits)

lemma forward_new_covers:
  "m \<in> set ms \<Longrightarrow>
   recorded c (msg_id m) s
   \<or> Forward c (msg_id m) True \<in> set (new_events s (fst (forward_new w c ms (s, r))))
   \<or> Forward c (msg_id m) False \<in> set (new_events s (fst (forward_new w c ms (s, r))))"
proof (induction ms arbitrary: s r)
  case Nil
  then show ?case by simp
next
  case (Cons x xs)
  obtain s1 r1 where o: "forward_one w c x (s, r) = (s1, r1)"
    by (cases "forward_one w c x (s, r)")
  from wbf_forward_one [of c "msg_id m" s w c x r] o
  have w1: "written_by_forward c (msg_id m) s s1" by simp
  then have g1: "grows s s1" by (simp add: written_by_forward_def)
  from wbf_forward_new [of c "msg_id m" "(s1, r1)" w c xs]
  have g2: "grows s1 (fst (forward_new w c xs (s1, r1)))"
    by (simp add: written_by_forward_def)
  have ne: "new_events s (fst (forward_new w c (x # xs) (s, r))) =
      new_events s s1 @ new_events s1 (fst (forward_new w c xs (s1, r1)))"
    unfolding forward_new_Cons o by (rule new_events_trans [OF g1 g2])
  show ?case
  proof (cases "m = x")
    case True
    with forward_one_covers [of c x s w r] o ne show ?thesis by auto
  next
    case False
    with Cons.prems have "m \<in> set xs" by simp
    from Cons.IH [OF this, of s1 r1] w1 ne show ?thesis
      by (auto simp: written_by_forward_def)
  qed
qed

lemma process_channel_covers:
  assumes "m \<in> set (snd (get_channel_messages w c s))"
  shows "recorded c (msg_id m) s
   \<or> Forward c (msg_id m) True \<in> set (new_events s (fst (process_channel w c (s, r))))
   \<or> Forward c (msg_id m) False \<in> set (new_events s (fst (process_channel w c (s, r))))"
proof -
  obtain s1 ms where g: "get_channel_messages w c s = (s1, ms)"
    by (cases "get_channel_messages w c s")
  with assms have m: "m \<in> set ms" and ne: "ms \<noteq> []" by auto
  define s2 where "s2 = tick (s1\<lparr>db := update_last_message_id (store_up w (clock s1))
      (now w (clock s1)) c (max_message_id ms) (db s1)\<rparr>)"
  define s3 where "s3 = fst (forward_new w c ms (s2, r))"
  have p: "fst (process_channel w c (s, r)) = sleep 2 s3"
    by (simp add: process_channel_nonempty [OF g ne] s3_def s2_def)
  have g1: "grows s s1" using get_channel_messages_grows [of s w c] g by simp
  have g2: "grows s1 s2" by (simp add: s2_def grows_def new_events_def tick_def)
  have g3: "grows s2 s3"
    using wbf_forward_new [of c 0 "(s2, r)" w c ms]
    by (simp add: s3_def written_by_forward_def)
  have g4: "grows s3 (sleep 2 s3)" by (simp add: grows_def new_events_def sleep_def emit_def)
  have g12: "grows s s2" using g1 g2 by (rule grows_trans)
  have g13: "grows s s3" using g12 g3 by (rule grows_trans)
  have "new_events s (sleep 2 s3) = new_events s s3 @ new_events s3 (sleep 2 s3)"
    using g13 g4 by (rule new_events_trans)
  moreover have "new_events s s3 = new_events s s2 @ new_events s2 s3"
    using g12 g3 by (rule new_events_trans)
  ultimately have sub: "set (new_events s2 s3) \<subseteq> set (new_events s (sleep 2 s3))"
    by auto
  have rec: "recorded c (msg_id m) s2 = recorded c (msg_id m) s"
    using get_channel_messages_db [of w c s] g
    by (simp add: recorded_def s2_def tick_def is_post_processed_def update_last_message_id_def)
  from forward_new_covers [OF m, of c s2 w r] rec sub p show ?thesis
    unfolding s3_def [symmetric] by auto
qed

text \<open>
  C4. When the forward fails, \<open>forward_message\<close> returns \<open>False\<close> and the database is as it
  was. Across a pass, a pair that has a processed record at the end and had none at the
  start was forwarded successfully during the pass, so a pair whose forwards all failed
  has no record and the next pass finds it unprocessed. In a channel's slot, every
  candidate retrieved either had a record already or has a forward attempt in the slot's
  events, whatever happened to the candidates before it. And with a run boundary, the
  retrievals of a pass are those of the configured channels, each once and in order,
  whatever the transport and the store answered.
\<close>

theorem forward_failure_isolated:
  "(\<not> forward_ok w (clock s0) \<longrightarrow>
      snd (forward_message w m0 c s0) = False \<and> db (fst (forward_message w m0 c s0)) = db s0)
   \<and> (is_post_processed True c i (db (fst (process_all_channels w cfg s)))
        \<and> \<not> is_post_processed True c i (db s) \<longrightarrow>
      Forward c i True \<in> set (new_events s (fst (process_all_channels w cfg s))))
   \<and> (m \<in> set (snd (get_channel_messages w c s)) \<longrightarrow>
        is_post_processed True c (msg_id m) (db s)
        \<or> Forward c (msg_id m) True \<in> set (new_events s (fst (process_channel w c (s, r))))
        \<or> Forward c (msg_id m) False \<in> set (new_events s (fst (process_channel w c (s, r)))))
   \<and> (start_time s \<noteq> None \<longrightarrow>
        fetches (new_events s (fst (process_all_channels w cfg s))) = cfg)"
proof -
  have a: "\<not> forward_ok w (clock s0) \<longrightarrow>
      snd (forward_message w m0 c s0) = False \<and> db (fst (forward_message w m0 c s0)) = db s0"
    by (simp add: forward_message_def Let_def tick_def emit_def)
  have b: "is_post_processed True c i (db (fst (process_all_channels w cfg s)))
        \<and> \<not> is_post_processed True c i (db s) \<longrightarrow>
      Forward c i True \<in> set (new_events s (fst (process_all_channels w cfg s)))"
    using wbf_process_all_channels [of c i s w cfg]
    by (auto simp: written_by_forward_def recorded_def)
  have d: "m \<in> set (snd (get_channel_messages w c s)) \<longrightarrow>
        is_post_processed True c (msg_id m) (db s)
        \<or> Forward c (msg_id m) True \<in> set (new_events s (fst (process_channel w c (s, r))))
        \<or> Forward c (msg_id m) False \<in> set (new_events s (fst (process_channel w c (s, r))))"
    using process_channel_covers [of m w c s r] by (auto simp: recorded_def)
  have e: "start_time s \<noteq> None \<longrightarrow>
        fetches (new_events s (fst (process_all_channels w cfg s))) = cfg"
    using fetched_process_all_channels [of cfg s w] by (simp add: fetched_def)
  from a b d e show ?thesis by blast
qed

text \<open>
  A pass that retrieves 105 and 104, in which the forward of 105 fails: 105 has no record
  after the pass, 104 is forwarded and recorded.
\<close>

theorem forward_failure_isolated_witness:
  "\<not> forward_ok flaky_world (clock (started\<lparr>clock := 3\<rparr>))
   \<and> snd (forward_message flaky_world msg105 ''@a'' (started\<lparr>clock := 3\<rparr>)) = False
   \<and> db (fst (forward_message flaky_world msg105 ''@a'' (started\<lparr>clock := 3\<rparr>))) = db started
   \<and> is_post_processed True ''@a'' 104 (db (fst (process_all_channels flaky_world [''@a''] started)))
   \<and> \<not> is_post_processed True ''@a'' 104 (db started)
   \<and> Forward ''@a'' 104 True
        \<in> set (new_events started (fst (process_all_channels flaky_world [''@a''] started)))
   \<and> msg105 \<in> set (snd (get_channel_messages flaky_world ''@a'' started))
   \<and> \<not> is_post_processed True ''@a'' 105 (db started)
   \<and> \<not> is_post_processed True ''@a'' 105
        (db (fst (process_all_channels flaky_world [''@a''] started)))
   \<and> (Forward ''@a'' 105 True \<in> set (new_events started (fst (process_channel flaky_world ''@a''
          (started, \<lparr>processed = 0, forwarded = 0\<rparr>))))
       \<or> Forward ''@a'' 105 False \<in> set (new_events started (fst (process_channel flaky_world ''@a''
          (started, \<lparr>processed = 0, forwarded = 0\<rparr>)))))
   \<and> start_time started \<noteq> None
   \<and> fetches (new_events started (fst (process_all_channels flaky_world [''@a''] started)))
       = [''@a'']"
proof -
  have a: "\<not> forward_ok flaky_world (clock (started\<lparr>clock := 3\<rparr>))"
    by (simp add: flaky_world_def scenario_world_def)
  have b: "is_post_processed True ''@a'' 104
      (db (fst (process_all_channels flaky_world [''@a''] started)))"
    by (simp add: run_defs flaky_world_def scenario_world_def)
  have c: "\<not> is_post_processed True ''@a'' 104 (db started)"
    "\<not> is_post_processed True ''@a'' 105 (db started)"
    by (simp_all add: run_defs)
  have d: "msg105 \<in> set (snd (get_channel_messages flaky_world ''@a'' started))"
    by (simp add: run_defs flaky_world_def scenario_world_def)
  have e: "start_time started \<noteq> None"
    by (simp add: started_def new_client_def)
  have f: "\<not> is_post_processed True ''@a'' 105
        (db (fst (process_all_channels flaky_world [''@a''] started)))"
    by (simp add: run_defs flaky_world_def scenario_world_def)
  have i: "msg_id msg105 = 105" by (simp add: msg105_def)
  have j: "db (started\<lparr>clock := 3\<rparr>) = db started" by simp
  from a b c d e f i j
    forward_failure_isolated [of flaky_world "started\<lparr>clock := 3\<rparr>" msg105 "''@a''" 104
      "[''@a'']" started msg105 "\<lparr>processed = 0, forwarded = 0\<rparr>"]
  show ?thesis by simp
qed

section \<open>Watermark\<close>

lemma forward_one_settings:
  "channel_settings (db (fst (forward_one w c m a))) = channel_settings (db (fst a))"
  by (cases a)
     (simp add: forward_one_def forward_message_def Let_def tick_def emit_def sleep_def
        add_processed_post_def)

lemma forward_new_settings:
  "channel_settings (db (fst (forward_new w c ms sr))) = channel_settings (db (fst sr))"
  by (rule forward_new_rel
        [of "\<lambda>a b. channel_settings (db (fst b)) = channel_settings (db (fst a))"])
     (simp_all add: forward_one_settings)

lemma filter_none: "\<forall>x \<in> set xs. \<not> (P x \<and> Q x) \<Longrightarrow> filter P (filter Q xs) = []"
  by (induction xs) auto

lemma filter_other:
  "c' \<noteq> c \<Longrightarrow> filter (\<lambda>x. f x \<noteq> c \<and> f x = c') xs = filter (\<lambda>r. f r = c') xs"
  by (induction xs) auto

lemma get_after_update:
  "get_last_message_id True c (update_last_message_id True t c i d) = i"
  by (simp add: get_last_message_id_def update_last_message_id_def filter_none)

lemma get_after_update_other:
  "c' \<noteq> c \<Longrightarrow>
   get_last_message_id up' c' (update_last_message_id up t c i d) = get_last_message_id up' c' d"
  by (simp add: get_last_message_id_def update_last_message_id_def filter_other)

lemma get_last_message_id_cong:
  "channel_settings d' = channel_settings d \<Longrightarrow>
   get_last_message_id up c d' = get_last_message_id up c d"
  by (simp add: get_last_message_id_def)

lemma process_channel_settings:
  assumes g: "get_channel_messages w c s = (s1, ms)" and ne: "ms \<noteq> []"
  shows "channel_settings (db (fst (process_channel w c (s, r)))) =
     channel_settings (update_last_message_id (store_up w (clock s1)) (now w (clock s1)) c
        (max_message_id ms) (db s))"
  using get_channel_messages_db [of w c s] g
  by (simp add: process_channel_nonempty [OF g ne] forward_new_settings sleep_def emit_def
      tick_def)

text \<open>
  C3, as the code has it. When the retrieval for a channel yields candidates and the store
  accepts the write, the channel's watermark after the slot is the largest message id
  among these candidates, whatever the watermark was. When it yields none, the database is
  unchanged. The watermark of any other channel is unchanged by the slot.
\<close>

theorem watermark_set_to_batch_maximum:
  "(snd (get_channel_messages w c s) \<noteq> []
      \<and> store_up w (clock (fst (get_channel_messages w c s))) \<longrightarrow>
        get_last_message_id True c (db (fst (process_channel w c (s, r))))
          = Max (msg_id ` set (snd (get_channel_messages w c s))))
   \<and> (snd (get_channel_messages w c s) = [] \<longrightarrow>
        db (fst (process_channel w c (s, r))) = db s)
   \<and> (c' \<noteq> c \<longrightarrow>
        get_last_message_id up c' (db (fst (process_channel w c (s, r))))
          = get_last_message_id up c' (db s))"
proof -
  obtain s1 ms where g: "get_channel_messages w c s = (s1, ms)"
    by (cases "get_channel_messages w c s")
  have a: "ms \<noteq> [] \<and> store_up w (clock s1) \<longrightarrow>
      get_last_message_id True c (db (fst (process_channel w c (s, r)))) = Max (msg_id ` set ms)"
  proof
    assume h: "ms \<noteq> [] \<and> store_up w (clock s1)"
    then have "channel_settings (db (fst (process_channel w c (s, r)))) =
        channel_settings (update_last_message_id True (now w (clock s1)) c
          (max_message_id ms) (db s))"
      using process_channel_settings [OF g, of r] by simp
    then have "get_last_message_id True c (db (fst (process_channel w c (s, r)))) =
        get_last_message_id True c (update_last_message_id True (now w (clock s1)) c
          (max_message_id ms) (db s))"
      by (rule get_last_message_id_cong)
    then show "get_last_message_id True c (db (fst (process_channel w c (s, r))))
        = Max (msg_id ` set ms)"
      by (simp add: get_after_update max_message_id_def)
  qed
  have b: "ms = [] \<longrightarrow> db (fst (process_channel w c (s, r))) = db s"
    using g get_channel_messages_db [of w c s] by (simp add: process_channel_empty)
  have d: "c' \<noteq> c \<longrightarrow> get_last_message_id up c' (db (fst (process_channel w c (s, r))))
          = get_last_message_id up c' (db s)"
  proof (cases "ms = []")
    case True
    with b show ?thesis by simp
  next
    case False
    show ?thesis
    proof
      assume n: "c' \<noteq> c"
      have "get_last_message_id up c' (db (fst (process_channel w c (s, r)))) =
        get_last_message_id up c' (update_last_message_id (store_up w (clock s1))
          (now w (clock s1)) c (max_message_id ms) (db s))"
        using process_channel_settings [OF g False, of r]
        by (rule get_last_message_id_cong)
      with n show "get_last_message_id up c' (db (fst (process_channel w c (s, r))))
          = get_last_message_id up c' (db s)"
        by (simp add: get_after_update_other)
    qed
  qed
  from a b d g show ?thesis by simp
qed

theorem watermark_set_to_batch_maximum_witness:
  "snd (get_channel_messages deleting_world ''@a'' started) = [msg105, msg104]
   \<and> store_up deleting_world (clock (fst (get_channel_messages deleting_world ''@a'' started)))
   \<and> get_last_message_id True ''@a''
        (db (fst (process_channel deleting_world ''@a''
           (started, \<lparr>processed = 0, forwarded = 0\<rparr>)))) = 105
   \<and> get_last_message_id True ''@b''
        (db (fst (process_channel deleting_world ''@a''
           (started, \<lparr>processed = 0, forwarded = 0\<rparr>)))) = 0
   \<and> snd (get_channel_messages quiet_world ''@a'' started) = []
   \<and> db (fst (process_channel quiet_world ''@a''
        (started, \<lparr>processed = 0, forwarded = 0\<rparr>))) = db started"
proof -
  have g: "snd (get_channel_messages deleting_world ''@a'' started) = [msg105, msg104]"
    by (simp add: get_channel_messages_def deleting_world_def scenario_world_def started_def
        new_client_def Let_def tick_def emit_def msg105_def msg104_def has_text_def)
  have u: "store_up deleting_world t" for t
    by (simp add: deleting_world_def scenario_world_def)
  have q: "snd (get_channel_messages quiet_world ''@a'' started) = []"
    by (simp add: get_channel_messages_def quiet_world_def scenario_world_def started_def
        new_client_def Let_def tick_def emit_def)
  have z: "get_last_message_id True ''@b'' (db started) = 0"
    by (simp add: get_last_message_id_def started_def new_client_def init_database_def)
  have ne: "''@b'' \<noteq> ''@a''" by simp
  from g u q z ne
    watermark_set_to_batch_maximum [of deleting_world "''@a''" started
      "\<lparr>processed = 0, forwarded = 0\<rparr>" "''@b''" True]
    watermark_set_to_batch_maximum [of quiet_world "''@a''" started
      "\<lparr>processed = 0, forwarded = 0\<rparr>" "''@b''" True]
  show ?thesis by (simp add: msg105_def msg104_def)
qed

text \<open>
  C3 as stated fails: the first pass retrieves 105 and 104 and sets the watermark to 105;
  105 is then deleted from the channel, the second pass retrieves 104 alone and sets the
  watermark to 104.
\<close>

theorem watermark_regresses:
  "get_last_message_id True ''@a'' (db (passes deleting_world [''@a''] 1 started)) = 105
   \<and> get_last_message_id True ''@a'' (db (passes deleting_world [''@a''] 2 started)) = 104"
  by (simp add: run_defs deleting_world_def scenario_world_def numeral_2_eq_2)

section \<open>Delay between channels\<close>

lemma process_channel_ends_with_delay:
  assumes "snd (get_channel_messages w c s) \<noteq> []"
  shows "new_events s (fst (process_channel w c (s, r))) \<noteq> []
     \<and> last (new_events s (fst (process_channel w c (s, r)))) = Sleep 2"
proof -
  obtain s1 ms where g: "get_channel_messages w c s = (s1, ms)"
    by (cases "get_channel_messages w c s")
  with assms have ne: "ms \<noteq> []" by simp
  define s2 where "s2 = tick (s1\<lparr>db := update_last_message_id (store_up w (clock s1))
      (now w (clock s1)) c (max_message_id ms) (db s1)\<rparr>)"
  define s3 where "s3 = fst (forward_new w c ms (s2, r))"
  have p: "fst (process_channel w c (s, r)) = sleep 2 s3"
    by (simp add: process_channel_nonempty [OF g ne] s3_def s2_def)
  have g1: "grows s s1" using get_channel_messages_grows [of s w c] g by simp
  have g2: "grows s1 s2" by (simp add: s2_def grows_def new_events_def tick_def)
  have g3: "grows s2 s3" unfolding s3_def by (rule forward_new_grows)
  have g4: "grows s3 (sleep 2 s3)" by (simp add: grows_def new_events_def sleep_def emit_def)
  have g13: "grows s s3" using grows_trans [OF grows_trans [OF g1 g2] g3] .
  have "new_events s (sleep 2 s3) = new_events s s3 @ new_events s3 (sleep 2 s3)"
    using g13 g4 by (rule new_events_trans)
  moreover have "new_events s3 (sleep 2 s3) = [Sleep 2]"
    by (simp add: new_events_def sleep_def emit_def)
  ultimately show ?thesis using p by simp
qed

lemma get_channel_messages_sleep:
  "Sleep n \<in> set (new_events s (fst (get_channel_messages w c s))) \<Longrightarrow>
   map_option (\<lambda>b. walk b (iter_messages w (clock s) c) []) (start_time s) = Some (FloodWait n)"
  by (auto simp: get_channel_messages_def Let_def tick_def emit_def sleep_def new_events_def
      split: option.splits outcome.splits)

text \<open>
  C6, as the code has it. A channel's slot whose retrieval yields candidates ends with a
  sleep of 2 seconds. A slot whose retrieval yields none consists of the retrieval alone,
  and the retrieval sleeps only when the transport signals a rate limit, for the signaled
  duration.
\<close>

theorem delay_after_channel_with_candidates:
  "(snd (get_channel_messages w c s) \<noteq> [] \<longrightarrow>
      new_events s (fst (process_channel w c (s, r))) \<noteq> []
      \<and> last (new_events s (fst (process_channel w c (s, r)))) = Sleep 2)
   \<and> (snd (get_channel_messages w c s) = [] \<longrightarrow>
        process_channel w c (s, r) = (fst (get_channel_messages w c s), r))
   \<and> (Sleep n \<in> set (new_events s (fst (get_channel_messages w c s))) \<longrightarrow>
        map_option (\<lambda>b. walk b (iter_messages w (clock s) c) []) (start_time s)
          = Some (FloodWait n))"
proof (intro conjI impI)
  assume "snd (get_channel_messages w c s) \<noteq> []"
  then show "new_events s (fst (process_channel w c (s, r))) \<noteq> []"
    and "last (new_events s (fst (process_channel w c (s, r)))) = Sleep 2"
    using process_channel_ends_with_delay [of w c s r] by simp_all
next
  assume "snd (get_channel_messages w c s) = []"
  then show "process_channel w c (s, r) = (fst (get_channel_messages w c s), r)"
    by (rule process_channel_empty)
next
  assume "Sleep n \<in> set (new_events s (fst (get_channel_messages w c s)))"
  then show "map_option (\<lambda>b. walk b (iter_messages w (clock s) c) []) (start_time s)
          = Some (FloodWait n)"
    by (rule get_channel_messages_sleep)
qed

theorem delay_after_channel_with_candidates_witness:
  "snd (get_channel_messages deleting_world ''@a'' started) \<noteq> []
   \<and> last (new_events started (fst (process_channel deleting_world ''@a''
        (started, \<lparr>processed = 0, forwarded = 0\<rparr>)))) = Sleep 2
   \<and> snd (get_channel_messages quiet_world ''@a'' started) = []
   \<and> process_channel quiet_world ''@a'' (started, \<lparr>processed = 0, forwarded = 0\<rparr>)
       = (fst (get_channel_messages quiet_world ''@a'' started), \<lparr>processed = 0, forwarded = 0\<rparr>)
   \<and> Sleep 30 \<in> set (new_events started (fst (get_channel_messages flood_world ''@b'' started)))
   \<and> map_option (\<lambda>b. walk b (iter_messages flood_world (clock started) ''@b'') [])
        (start_time started) = Some (FloodWait 30)"
proof -
  have g: "snd (get_channel_messages deleting_world ''@a'' started) \<noteq> []"
    by (simp add: get_channel_messages_def deleting_world_def scenario_world_def started_def
        new_client_def Let_def tick_def emit_def msg105_def msg104_def has_text_def)
  have q: "snd (get_channel_messages quiet_world ''@a'' started) = []"
    by (simp add: get_channel_messages_def quiet_world_def scenario_world_def started_def
        new_client_def Let_def tick_def emit_def)
  have f: "Sleep 30 \<in> set (new_events started
      (fst (get_channel_messages flood_world ''@b'' started)))"
    by (simp add: get_channel_messages_def flood_world_def scenario_world_def started_def
        new_client_def Let_def tick_def emit_def sleep_def msg105_def has_text_def
        new_events_def)
  from g q f
    delay_after_channel_with_candidates [of deleting_world "''@a''" started
      "\<lparr>processed = 0, forwarded = 0\<rparr>" 30]
    delay_after_channel_with_candidates [of quiet_world "''@a''" started
      "\<lparr>processed = 0, forwarded = 0\<rparr>" 30]
    delay_after_channel_with_candidates [of flood_world "''@b''" started
      "\<lparr>processed = 0, forwarded = 0\<rparr>" 30]
  show ?thesis by simp
qed

text \<open>
  C6 as stated fails: in a pass over two channels that have no new message, the events are
  the two retrievals, with no sleep between them.
\<close>

theorem no_delay_after_empty_channel:
  "trace (fst (process_all_channels quiet_world [''@a'', ''@b''] started))
     = [Fetch ''@a'', Retrieved ''@a'' 0, Fetch ''@b'', Retrieved ''@b'' 0]"
  by (simp add: run_defs quiet_world_def scenario_world_def)

section \<open>Rate limit\<close>

lemma process_channel_starts_with_fetch:
  assumes "start_time s = Some b"
  shows "take 1 (new_events s (fst (process_channel w c (s, r)))) = [Fetch c]"
proof -
  obtain s1 ms where g: "get_channel_messages w c s = (s1, ms)"
    by (cases "get_channel_messages w c s")
  from assms g have t: "take 1 (new_events s s1) = [Fetch c]"
    by (auto simp: get_channel_messages_def Let_def tick_def emit_def sleep_def new_events_def
        split: outcome.splits)
  have g1: "grows s s1" using get_channel_messages_grows [of s w c] g by simp
  show ?thesis
  proof (cases "ms = []")
    case True
    with g t show ?thesis by (simp add: process_channel_empty)
  next
    case False
    define s2 where "s2 = tick (s1\<lparr>db := update_last_message_id (store_up w (clock s1))
      (now w (clock s1)) c (max_message_id ms) (db s1)\<rparr>)"
    define s3 where "s3 = fst (forward_new w c ms (s2, r))"
    have p: "fst (process_channel w c (s, r)) = sleep 2 s3"
      by (simp add: process_channel_nonempty [OF g False] s3_def s2_def)
    have g2: "grows s1 s2" by (simp add: s2_def grows_def new_events_def tick_def)
    have g3: "grows s2 s3" unfolding s3_def by (rule forward_new_grows)
    have g4: "grows s3 (sleep 2 s3)" by (simp add: grows_def new_events_def sleep_def emit_def)
    have g14: "grows s1 (sleep 2 s3)" using grows_trans [OF grows_trans [OF g2 g3] g4] .
    have "new_events s (sleep 2 s3) = new_events s s1 @ new_events s1 (sleep 2 s3)"
      using g1 g14 by (rule new_events_trans)
    with t p show ?thesis by (cases "new_events s s1") simp_all
  qed
qed

text \<open>
  C7. When the iteration over a channel's messages raises \<open>FloodWaitError\<close> with \<open>n\<close>
  seconds, \<open>get_channel_messages\<close> sleeps \<open>n\<close> seconds and returns the empty list, whatever
  it had collected; the channel's slot is this retrieval and nothing else (the events are
  the retrieval and the sleep, the database and the results are unchanged); and the pass
  goes on with the retrieval of the next configured channel.
\<close>

theorem rate_limit_handling:
  assumes "start_time s = Some b"
    and "walk b (iter_messages w (clock s) c) [] = FloodWait n"
  shows "get_channel_messages w c s = (sleep n (emit (Fetch c) (tick s)), [])
    \<and> process_channel w c (s, r) = (sleep n (emit (Fetch c) (tick s)), r)
    \<and> new_events s (sleep n (emit (Fetch c) (tick s))) = [Fetch c, Sleep n]
    \<and> db (sleep n (emit (Fetch c) (tick s))) = db s
    \<and> take 3 (new_events s (fst (process_channels w (c # c' # cs) (s, r))))
        = [Fetch c, Sleep n, Fetch c']"
proof -
  define s1 where "s1 = sleep n (emit (Fetch c) (tick s))"
  from assms have g: "get_channel_messages w c s = (s1, [])"
    by (simp add: get_channel_messages_def Let_def s1_def)
  then have p: "process_channel w c (s, r) = (s1, r)"
    using process_channel_empty [of w c s r] by simp
  have e: "new_events s s1 = [Fetch c, Sleep n]"
    by (simp add: s1_def new_events_def sleep_def emit_def tick_def)
  have d: "db s1 = db s" by (simp add: s1_def sleep_def emit_def tick_def)
  have st: "start_time s1 = Some b"
    using assms(1) by (simp add: s1_def sleep_def emit_def tick_def)
  define s2 where "s2 = fst (process_channel w c' (s1, r))"
  define s3 where "s3 = fst (process_channels w cs (process_channel w c' (s1, r)))"
  have f: "fst (process_channels w (c # c' # cs) (s, r)) = s3"
    by (simp add: p s3_def)
  have g1: "grows s s1" using get_channel_messages_grows [of s w c] g by simp
  have g2: "grows s1 s2" unfolding s2_def by (rule process_channel_grows)
  have g3: "grows s2 s3" unfolding s2_def s3_def by (rule process_channels_grows)
  have t2: "take 1 (new_events s1 s2) = [Fetch c']"
    unfolding s2_def by (rule process_channel_starts_with_fetch [OF st])
  have "new_events s s3 = new_events s s1 @ new_events s1 s2 @ new_events s2 s3"
    using new_events_trans [OF g1 grows_trans [OF g2 g3]] new_events_trans [OF g2 g3]
    by simp
  with e t2 have "take 3 (new_events s s3) = [Fetch c, Sleep n, Fetch c']"
    by (cases "new_events s1 s2") simp_all
  with g p e d f show ?thesis unfolding s1_def by simp
qed

text \<open>The scenario: @b signals a rate limit of 30 seconds, and @c is retrieved next.\<close>

theorem rate_limit_handling_witness:
  "start_time started = Some 1000
   \<and> walk 1000 (iter_messages flood_world (clock started) ''@b'') [] = FloodWait 30
   \<and> snd (get_channel_messages flood_world ''@b'' started) = []
   \<and> new_events started (fst (process_channel flood_world ''@b''
        (started, \<lparr>processed = 0, forwarded = 0\<rparr>))) = [Fetch ''@b'', Sleep 30]
   \<and> take 3 (new_events started (fst (process_channels flood_world [''@b'', ''@c'']
        (started, \<lparr>processed = 0, forwarded = 0\<rparr>)))) = [Fetch ''@b'', Sleep 30, Fetch ''@c'']"
proof -
  have s: "start_time started = Some 1000"
    by (simp add: started_def new_client_def)
  have f: "walk 1000 (iter_messages flood_world (clock started) ''@b'') [] = FloodWait 30"
    by (simp add: flood_world_def scenario_world_def msg105_def has_text_def)
  note r = rate_limit_handling [OF s f, of "\<lparr>processed = 0, forwarded = 0\<rparr>" "''@c''" "[]"]
  from r have g: "get_channel_messages flood_world ''@b'' started
      = (sleep 30 (emit (Fetch ''@b'') (tick started)), [])"
    by (rule conjunct1)
  from r have p: "process_channel flood_world ''@b'' (started, \<lparr>processed = 0, forwarded = 0\<rparr>)
      = (sleep 30 (emit (Fetch ''@b'') (tick started)), \<lparr>processed = 0, forwarded = 0\<rparr>)"
    by blast
  from r have e: "new_events started (sleep 30 (emit (Fetch ''@b'') (tick started)))
      = [Fetch ''@b'', Sleep 30]"
    by blast
  from r have t: "take 3 (new_events started (fst (process_channels flood_world [''@b'', ''@c'']
        (started, \<lparr>processed = 0, forwarded = 0\<rparr>)))) = [Fetch ''@b'', Sleep 30, Fetch ''@c'']"
    by blast
  from s f g p e t show ?thesis by simp
qed

end
